theory Spec2Isabelle
  imports Complex_Main "HOL-Library.Code_Target_Numeral"
begin

text \<open>
  A shallow embedding of the version and compaction-planning code of db/version_set.cc:
  \<open>FindFile\<close>, \<open>Version::Get\<close> with its seek accounting,
  \<open>Version::GetOverlappingInputs\<close>, the \<open>Builder\<close> (\<open>Apply\<close>, \<open>SaveTo\<close>,
  \<open>MaybeAddFile\<close>), \<open>VersionSet::Recover\<close> and \<open>Finalize\<close>, \<open>SetupOtherInputs\<close>,
  \<open>CompactRange\<close> and \<open>Compaction::ShouldStopBefore\<close>. Every function is translated
  from the source. What the file uses but does not contain (the comparator of internal
  keys, the table cache, the log reader, the decoder of edits) is modelled from the
  specification or taken as a parameter, as said at each definition. The definitions come
  first, then the predicates and sample data of the statements, then the proofs.
\<close>

section \<open>Keys and comparators\<close>

text \<open>
  User keys are compared by the user comparator of the database, a total order that the
  code only ever consults through \<open>Compare\<close>. The user-key type is a parameter of
  class \<open>linorder\<close>; \<open>ucmp_Compare\<close> is the three-way comparison over it.
\<close>

definition ucmp_Compare :: "'u::linorder \<Rightarrow> 'u \<Rightarrow> int" where
  "ucmp_Compare a b = (if a < b then -1 else if b < a then 1 else 0)"

datatype ValueType = kTypeDeletion | kTypeValue

datatype 'u InternalKey = InternalKey (user_key: 'u) (sequence: nat) (vtype: ValueType)

text \<open>The 8-byte suffix of an encoded internal key: \<open>(sequence << 8) | type\<close>.\<close>

definition PackSequenceAndType :: "'u InternalKey \<Rightarrow> nat" where
  "PackSequenceAndType k =
     sequence k * 256 + (case vtype k of kTypeDeletion \<Rightarrow> 0 | kTypeValue \<Rightarrow> 1)"

text \<open>
  Modelled from the spec: \<open>InternalKeyComparator::Compare\<close> (db/dbformat.cc is not among
  the sources). Internal keys compare by user key ascending, then by the 8-byte suffix
  descending.
\<close>

definition icmp_Compare :: "'u::linorder InternalKey \<Rightarrow> 'u InternalKey \<Rightarrow> int" where
  "icmp_Compare a b =
     (let r = ucmp_Compare (user_key a) (user_key b) in
      if r = 0 then
        (if PackSequenceAndType a > PackSequenceAndType b then -1
         else if PackSequenceAndType a < PackSequenceAndType b then 1
         else 0)
      else r)"

text \<open>
  The order that \<open>icmp_Compare\<close> induces on internal keys: \<open>a < b\<close> is
  \<open>icmp_Compare a b < 0\<close>, \<open>a \<le> b\<close> is \<open>icmp_Compare a b \<le> 0\<close>. It is a linear order.
\<close>

instantiation InternalKey :: (linorder) linorder
begin

definition less_eq_InternalKey :: "'a InternalKey \<Rightarrow> 'a InternalKey \<Rightarrow> bool" where
  "less_eq_InternalKey a b = (icmp_Compare a b \<le> 0)"

definition less_InternalKey :: "'a InternalKey \<Rightarrow> 'a InternalKey \<Rightarrow> bool" where
  "less_InternalKey a b = (icmp_Compare a b < 0)"

instance
proof
  fix x y z :: "'a InternalKey"
  have lt: "(a < b) = (user_key a < user_key b \<or>
      (user_key a = user_key b \<and> PackSequenceAndType b < PackSequenceAndType a))"
    for a b :: "'a InternalKey"
    by (simp add: less_InternalKey_def icmp_Compare_def ucmp_Compare_def Let_def) auto
  have le: "(a \<le> b) = (user_key a < user_key b \<or>
      (user_key a = user_key b \<and> PackSequenceAndType b \<le> PackSequenceAndType a))"
    for a b :: "'a InternalKey"
    by (simp add: less_eq_InternalKey_def icmp_Compare_def ucmp_Compare_def Let_def) auto
  have inj: "a = b"
    if "user_key a = user_key b" "PackSequenceAndType a = PackSequenceAndType b"
    for a b :: "'a InternalKey"
  proof -
    have d: "PackSequenceAndType k div 256 = sequence k" for k :: "'a InternalKey"
      by (cases "vtype k") (simp_all add: PackSequenceAndType_def)
    have m: "even (PackSequenceAndType k) = (vtype k = kTypeDeletion)"
      for k :: "'a InternalKey"
      by (cases "vtype k") (simp_all add: PackSequenceAndType_def)
    have "sequence a = sequence b"
      using d [of a] d [of b] that(2) by simp
    moreover have "vtype a = vtype b"
      using m [of a] m [of b] that(2) by (cases "vtype a"; cases "vtype b") simp_all
    ultimately show ?thesis
      using that(1) by (simp add: InternalKey.expand)
  qed
  show "(x < y) = (x \<le> y \<and> \<not> y \<le> x)"
    unfolding lt le by auto
  show "x \<le> x"
    unfolding le by simp
  show "x \<le> y \<Longrightarrow> y \<le> z \<Longrightarrow> x \<le> z"
    unfolding le by auto
  show "x = y" if "x \<le> y" "y \<le> x"
  proof -
    have "user_key x = user_key y" "PackSequenceAndType x = PackSequenceAndType y"
      using that unfolding le by auto
    then show ?thesis by (rule inj)
  qed
  show "x \<le> y \<or> y \<le> x"
    unfolding le by auto
qed

end

section \<open>File metadata\<close>

text \<open>
  \<open>FileMetaData\<close> as the code reads it: file number, size in bytes, and the inclusive
  internal-key bounds. \<open>allowed_seeks\<close> is the seek budget set by \<open>Builder::Apply\<close>.
  The reference count \<open>refs\<close> only drives deallocation and is not modelled: files and
  versions are values here. File numbers and sizes are \<open>uint64_t\<close> in the source and
  natural numbers here; where the source adds them up, the wrap-around of the 64-bit
  result is written out.
\<close>

record 'u FileMetaData =
  allowed_seeks :: int
  number :: nat
  file_size :: nat
  smallest :: "'u InternalKey"
  largest :: "'u InternalKey"

text \<open>
  The two 64-bit integer types. A \<open>uint64_t\<close> is a natural number below \<open>2^64\<close>, an
  \<open>int64_t\<close> an integer from \<open>-2^63\<close> up to \<open>2^63 - 1\<close>. \<open>to_uint64\<close> is the
  conversion of an integer to \<open>uint64_t\<close>, \<open>to_int64\<close> the conversion of an unsigned
  value to \<open>int64_t\<close>, which keeps the 64 bits (two's complement).
\<close>

definition to_uint64 :: "int \<Rightarrow> nat" where
  "to_uint64 x = nat (x mod 2 ^ 64)"

definition to_int64 :: "nat \<Rightarrow> int" where
  "to_int64 n = (let m = n mod 2 ^ 64 in if m < 2 ^ 63 then int m else int m - 2 ^ 64)"

text \<open>
  The sum of two \<open>int64_t\<close> values. An overflow of this sum is undefined in C++; the
  model takes the result the hardware gives, the sum reduced to 64 bits.
\<close>

definition int64_add :: "int \<Rightarrow> int \<Rightarrow> int" where
  "int64_add a b = to_int64 (to_uint64 (a + b))"

text \<open>
  \<open>TotalFileSize\<close> adds the \<open>uint64_t\<close> sizes into an \<open>int64_t\<close>: each
  \<open>sum += file_size\<close> converts \<open>sum\<close> to \<open>uint64_t\<close>, adds modulo \<open>2^64\<close> and
  converts the result back. \<open>sum\<close> is \<open>sum_bytes\<close> here.
\<close>

definition TotalFileSize :: "'u FileMetaData list \<Rightarrow> int" where
  "TotalFileSize files =
     fold (\<lambda>f sum_bytes. to_int64 (to_uint64 sum_bytes + file_size f)) files 0"

section \<open>FindFile\<close>

text \<open>
  The binary search of \<open>FindFile\<close>. \<open>left\<close>, \<open>right\<close> and \<open>mid\<close> are \<open>uint32_t\<close>:
  the size of the vector is truncated to 32 bits and \<open>left + right\<close> wraps, both written
  out with \<open>mod 2 ^ 32\<close>. With wrap-around the loop need not end, so it is a partial
  function and \<open>None\<close> stands for a run that does not return. Reading \<open>files[mid]\<close>
  past the end of the vector is undefined behaviour in the source; the model gives
  \<open>None\<close> there too. The result is converted to \<open>int\<close> as the return type says.
  The recursion equation of the loop is its code equation.
\<close>

partial_function (option) FindFile_loop ::
  "'u::linorder FileMetaData list \<Rightarrow> 'u InternalKey \<Rightarrow> nat \<Rightarrow> nat \<Rightarrow> nat option" where
  "FindFile_loop files key left right =
     (if left < right then
        (let mid = ((left + right) mod 2 ^ 32) div 2 in
         if mid < length files then
           (if icmp_Compare (largest (files ! mid)) key < 0
            then FindFile_loop files key ((mid + 1) mod 2 ^ 32) right
            else FindFile_loop files key left mid)
         else None)
      else Some right)"

declare FindFile_loop.simps [code]

definition uint32_to_int :: "nat \<Rightarrow> int" where
  "uint32_to_int n = (if n < 2 ^ 31 then int n else int n - 2 ^ 32)"

definition FindFile :: "'u::linorder FileMetaData list \<Rightarrow> 'u InternalKey \<Rightarrow> int option" where
  "FindFile files key =
     map_option uint32_to_int (FindFile_loop files key 0 (length files mod 2 ^ 32))"


section \<open>Constants and status values\<close>

definition kTargetFileSize :: nat where
  "kTargetFileSize = 2 * 1048576"

definition kMaxGrandParentOverlapBytes :: int where
  "kMaxGrandParentOverlapBytes = 10 * int kTargetFileSize"

definition kExpandedCompactionByteSizeLimit :: int where
  "kExpandedCompactionByteSizeLimit = 25 * int kTargetFileSize"

text \<open>
  \<open>config::kNumLevels\<close> is declared in db/dbformat.h, which is not among the sources;
  \<open>VersionSet::LevelSummary\<close> asserts that it is 7.
\<close>

definition kNumLevels :: nat where
  "kNumLevels = 7"


definition MaxFileSizeForLevel :: "nat \<Rightarrow> nat" where
  "MaxFileSizeForLevel level = kTargetFileSize"

text \<open>
  \<open>Status\<close> with its kinds and the first message fragment; \<open>OK\<close> is success.
\<close>

datatype Status = OK | NotFound string | Corruption string | InvalidArgument string
  | IOError string

definition ok :: "Status \<Rightarrow> bool" where
  "ok s = (s = OK)"

text \<open>
  An \<open>assert\<close> that fails and the \<open>abort()\<close> of the debug check in \<open>SaveTo\<close> end the
  process; both are results of the model. Both exist only in a build without the macro
  \<open>NDEBUG\<close>: the functions that contain them take the flag \<open>ndebug\<close>, true when the
  macro is defined and the checks are compiled out.
\<close>

datatype failure = AssertionFailed | Aborted

section \<open>Version\<close>

text \<open>
  A Version holds the file list of every level (\<open>files_[level]\<close>) and the compaction
  hints. The intrusive list of live versions and the reference counts are memory
  management and are left out. Isabelle reserves names that end in an underscore, so a
  member that the source calls \<open>x_\<close> is the field \<open>x'\<close> here.
\<close>

record 'u Version =
  files' :: "nat \<Rightarrow> 'u FileMetaData list"
  file_to_compact' :: "'u FileMetaData option"
  file_to_compact_level' :: int
  compaction_score' :: rat
  compaction_level' :: int

text \<open>
  Modelled from the spec: the constructor \<open>Version(VersionSet* vset)\<close> (db/version_set.h
  is not among the sources). A new Version has no file at any level and no
  seek-compaction candidate; its compaction hints are unset until \<open>Finalize\<close> fills
  them. The back pointer to the version set is not kept, so the argument is not used.
\<close>

definition new_Version :: "'w \<Rightarrow> 'u Version" where
  "new_Version vset = \<lparr> files' = (\<lambda>level. []), file_to_compact' = None,
     file_to_compact_level' = -1, compaction_score' = -1, compaction_level' = -1 \<rparr>"

text \<open>
  The invariant of a level above 0: successive files are strictly ordered by their
  smallest key and the largest key of a file is below the smallest key of the next.
\<close>

fun level_sorted :: "'u::linorder FileMetaData list \<Rightarrow> bool" where
  "level_sorted [] = True"
| "level_sorted [f] = True"
| "level_sorted (f # g # fs) =
     (icmp_Compare (smallest f) (smallest g) < 0 \<and>
      icmp_Compare (largest f) (smallest g) < 0 \<and> level_sorted (g # fs))"

text \<open>
  A file's bounds are those of its entries, so its smallest key is not above its largest.
\<close>

definition files_well_formed :: "'u::linorder FileMetaData list \<Rightarrow> bool" where
  "files_well_formed files =
     list_all (\<lambda>f. icmp_Compare (smallest f) (largest f) \<le> 0) files"

section \<open>GetOverlappingInputs\<close>

text \<open>
  The four tests of the scan. A \<open>NULL\<close> bound is \<open>None\<close>; the window
  \<open>user_begin\<close>, \<open>user_end\<close> only changes when the bound is not \<open>NULL\<close>, so one
  option value carries both the pointer test and the current bound.
\<close>

definition file_before_range :: "'u::linorder FileMetaData \<Rightarrow> 'u option \<Rightarrow> bool" where
  "file_before_range f user_begin =
     (case user_begin of None \<Rightarrow> False
      | Some b \<Rightarrow> ucmp_Compare (user_key (largest f)) b < 0)"

definition file_after_range :: "'u::linorder FileMetaData \<Rightarrow> 'u option \<Rightarrow> bool" where
  "file_after_range f user_end =
     (case user_end of None \<Rightarrow> False
      | Some e \<Rightarrow> ucmp_Compare (user_key (smallest f)) e > 0)"

definition file_widens_begin :: "'u::linorder FileMetaData \<Rightarrow> 'u option \<Rightarrow> bool" where
  "file_widens_begin f user_begin =
     (case user_begin of None \<Rightarrow> False
      | Some b \<Rightarrow> ucmp_Compare (user_key (smallest f)) b < 0)"

definition file_widens_end :: "'u::linorder FileMetaData \<Rightarrow> 'u option \<Rightarrow> bool" where
  "file_widens_end f user_end =
     (case user_end of None \<Rightarrow> False
      | Some e \<Rightarrow> ucmp_Compare (user_key (largest f)) e > 0)"

text \<open>
  The number of files that could still widen the window; it drops at every restart.
\<close>

definition window_slack ::
  "'u::linorder FileMetaData list \<Rightarrow> 'u option \<Rightarrow> 'u option \<Rightarrow> nat" where
  "window_slack files user_begin user_end =
     length (filter (\<lambda>g. file_widens_begin g user_begin) files) +
     length (filter (\<lambda>g. file_widens_end g user_end) files)"

lemma length_filter_mono:
  "(\<And>x. x \<in> set xs \<Longrightarrow> P x \<Longrightarrow> Q x) \<Longrightarrow> length (filter P xs) \<le> length (filter Q xs)"
  by (induction xs) auto

lemma length_filter_strict:
  assumes "\<And>x. x \<in> set xs \<Longrightarrow> P x \<Longrightarrow> Q x" "y \<in> set xs" "Q y" "\<not> P y"
  shows "length (filter P xs) < length (filter Q xs)"
  using assms
proof (induction xs)
  case Nil then show ?case by simp
next
  case (Cons x xs)
  have le: "length (filter P xs) \<le> length (filter Q xs)"
    using Cons.prems(1) by (intro length_filter_mono) simp
  show ?case
  proof (cases "y \<in> set xs")
    case True
    then have "length (filter P xs) < length (filter Q xs)"
      using Cons.IH Cons.prems by auto
    then show ?thesis using Cons.prems(1)[of x] by auto
  next
    case False
    then have "x = y" using Cons.prems(2) by simp
    then show ?thesis using le Cons.prems(3,4) by simp
  qed
qed

lemma window_slack_begin:
  assumes "i < length files" "file_widens_begin (files ! i) user_begin"
  shows "window_slack files (Some (user_key (smallest (files ! i)))) user_end
         < window_slack files user_begin user_end"
proof -
  obtain b where b: "user_begin = Some b" "user_key (smallest (files ! i)) < b"
    using assms(2) by (auto simp: file_widens_begin_def ucmp_Compare_def split: option.splits if_splits)
  have "length (filter (\<lambda>g. file_widens_begin g (Some (user_key (smallest (files ! i))))) files)
        < length (filter (\<lambda>g. file_widens_begin g user_begin) files)"
  proof (rule length_filter_strict[where y = "files ! i"])
    show "files ! i \<in> set files" using assms(1) by simp
    show "file_widens_begin (files ! i) user_begin" by (rule assms(2))
    show "\<not> file_widens_begin (files ! i) (Some (user_key (smallest (files ! i))))"
      by (simp add: file_widens_begin_def ucmp_Compare_def)
    fix x assume "file_widens_begin x (Some (user_key (smallest (files ! i))))"
    then show "file_widens_begin x user_begin" using b
      by (auto simp: file_widens_begin_def ucmp_Compare_def split: if_splits)
  qed
  then show ?thesis by (simp add: window_slack_def)
qed

lemma window_slack_end:
  assumes "i < length files" "file_widens_end (files ! i) user_end"
  shows "window_slack files user_begin (Some (user_key (largest (files ! i))))
         < window_slack files user_begin user_end"
proof -
  obtain e where e: "user_end = Some e" "e < user_key (largest (files ! i))"
    using assms(2) by (auto simp: file_widens_end_def ucmp_Compare_def split: option.splits if_splits)
  have "length (filter (\<lambda>g. file_widens_end g (Some (user_key (largest (files ! i))))) files)
        < length (filter (\<lambda>g. file_widens_end g user_end) files)"
  proof (rule length_filter_strict[where y = "files ! i"])
    show "files ! i \<in> set files" using assms(1) by simp
    show "file_widens_end (files ! i) user_end" by (rule assms(2))
    show "\<not> file_widens_end (files ! i) (Some (user_key (largest (files ! i))))"
      by (simp add: file_widens_end_def ucmp_Compare_def)
    fix x assume "file_widens_end x (Some (user_key (largest (files ! i))))"
    then show "file_widens_end x user_end" using e
      by (auto simp: file_widens_end_def ucmp_Compare_def split: if_splits)
  qed
  then show ?thesis by (simp add: window_slack_def)
qed

function GetOverlappingInputs_loop ::
  "bool \<Rightarrow> 'u::linorder FileMetaData list \<Rightarrow> 'u option \<Rightarrow> 'u option \<Rightarrow> nat \<Rightarrow>
   'u FileMetaData list \<Rightarrow> 'u FileMetaData list" where
  "GetOverlappingInputs_loop level0 files user_begin user_end i inputs =
     (if i < length files then
        (if file_before_range (files ! i) user_begin then
           GetOverlappingInputs_loop level0 files user_begin user_end (i + 1) inputs
         else if file_after_range (files ! i) user_end then
           GetOverlappingInputs_loop level0 files user_begin user_end (i + 1) inputs
         else if level0 \<and> file_widens_begin (files ! i) user_begin then
           GetOverlappingInputs_loop level0 files
             (Some (user_key (smallest (files ! i)))) user_end 0 []
         else if level0 \<and> file_widens_end (files ! i) user_end then
           GetOverlappingInputs_loop level0 files
             user_begin (Some (user_key (largest (files ! i)))) 0 []
         else
           GetOverlappingInputs_loop level0 files user_begin user_end (i + 1)
             (inputs @ [files ! i]))
      else inputs)"
  by pat_completeness auto
termination
proof (relation "measures [\<lambda>(level0, files, user_begin, user_end, i, inputs).
                              window_slack files user_begin user_end,
                           \<lambda>(level0, files, user_begin, user_end, i, inputs).
                              length files - i]", goal_cases)
  case 1 show ?case by simp
next
  case 2 then show ?case by simp
next
  case 3 then show ?case by simp
next
  case 4 then show ?case by (simp add: window_slack_begin)
next
  case 5 then show ?case by (simp add: window_slack_end)
next
  case 6 then show ?case by simp
qed


declare GetOverlappingInputs_loop.simps [simp del]

definition GetOverlappingInputs ::
  "'u::linorder Version \<Rightarrow> nat \<Rightarrow> 'u InternalKey option \<Rightarrow> 'u InternalKey option \<Rightarrow>
   'u FileMetaData list" where
  "GetOverlappingInputs v level begin_key end_key =
     GetOverlappingInputs_loop (level = 0) (files' v level)
       (map_option user_key begin_key) (map_option user_key end_key) 0 []"

section \<open>Version::Get\<close>

text \<open>
  The table cache is outside the sources. A lookup in one table is a function of the file
  number, the file size and the internal key; it yields a status and, when the table holds
  an entry at or after the key, the arguments of the one call of the \<open>SaveValue\<close>
  callback: the stored key (\<open>None\<close> when \<open>ParseInternalKey\<close> rejects it) and the value.
\<close>

type_synonym 'u TableCacheGet =
  "nat \<Rightarrow> nat \<Rightarrow> 'u InternalKey \<Rightarrow> Status \<times> ('u InternalKey option \<times> string) option"

datatype SaverState = kNotFound | kFound | kDeleted | kCorrupt

record 'u Saver =
  state :: SaverState
  saver_user_key :: 'u
  saver_value :: "string option"

definition SaveValue ::
  "'u::linorder Saver \<Rightarrow> 'u InternalKey option \<Rightarrow> string \<Rightarrow> 'u Saver" where
  "SaveValue s ikey v =
     (case ikey of
        None \<Rightarrow> s\<lparr>state := kCorrupt\<rparr>
      | Some parsed_key \<Rightarrow>
          if ucmp_Compare (user_key parsed_key) (saver_user_key s) = 0 then
            (let s' = s\<lparr>state := (if vtype parsed_key = kTypeValue then kFound else kDeleted)\<rparr>
             in if state s' = kFound then s'\<lparr>saver_value := Some v\<rparr> else s')
          else s)"

record 'u GetStats =
  seek_file :: "'u FileMetaData option"
  seek_file_level :: int

text \<open>
  The variables of \<open>Get\<close> that live across the probes. \<open>value_out\<close> is the caller's
  \<open>*value\<close> (\<open>None\<close> until a probe assigns it). Two fields observe the run without
  influencing it: \<open>probed\<close> lists, in order, the level and file of every call of
  \<open>table_cache_->Get\<close>, and \<open>charges\<close> counts the executions of the assignment
  \<open>stats->seek_file = last_file_read\<close>.
\<close>

record 'u GetState =
  stats :: "'u GetStats"
  last_file_read :: "'u FileMetaData option"
  last_file_read_level :: int
  value_out :: "string option"
  probed :: "(nat \<times> 'u FileMetaData) list"
  charges :: nat

text \<open>
  The head of the probe loop: on a probe that follows an earlier one, while no file has
  been charged yet, the file read last is charged.
\<close>

definition charge_first_seek :: "'u GetState \<Rightarrow> 'u GetState" where
  "charge_first_seek st =
     (if last_file_read st \<noteq> None \<and> seek_file (stats st) = None
      then st\<lparr>stats := \<lparr>seek_file = last_file_read st,
                         seek_file_level = last_file_read_level st\<rparr>,
              charges := charges st + 1\<rparr>
      else st)"

text \<open>The file about to be read becomes \<open>last_file_read\<close>.\<close>

definition note_file_read :: "nat \<Rightarrow> 'u FileMetaData \<Rightarrow> 'u GetState \<Rightarrow> 'u GetState" where
  "note_file_read level f st =
     st\<lparr>last_file_read := Some f, last_file_read_level := int level,
        probed := probed st @ [(level, f)]\<rparr>"

text \<open>
  The probe loop over the files chosen for one level. \<open>Inl\<close> is a \<open>return\<close> out of
  \<open>Get\<close> with its status, \<open>Inr\<close> falls through to the next level.
\<close>

fun Get_probe_files ::
  "'u::linorder TableCacheGet \<Rightarrow> 'u InternalKey \<Rightarrow> nat \<Rightarrow> 'u FileMetaData list \<Rightarrow>
   'u GetState \<Rightarrow> (Status \<times> 'u GetState) + 'u GetState" where
  "Get_probe_files table_get k level [] st = Inr st"
| "Get_probe_files table_get k level (f # fs) st =
     (let st2 = note_file_read level f (charge_first_seek st);
          saver0 = \<lparr>state = kNotFound, saver_user_key = user_key k,
                    saver_value = value_out st2\<rparr>;
          r = table_get (number f) (file_size f) k;
          saver = (case snd r of None \<Rightarrow> saver0
                   | Some (ikey, v) \<Rightarrow> SaveValue saver0 ikey v);
          st3 = st2\<lparr>value_out := saver_value saver\<rparr>
      in if \<not> ok (fst r) then Inl (fst r, st3)
         else (case state saver of
                 kNotFound \<Rightarrow> Get_probe_files table_get k level fs st3
               | kFound \<Rightarrow> Inl (fst r, st3)
               | kDeleted \<Rightarrow> Inl (NotFound [], st3)
               | kCorrupt \<Rightarrow> Inl (Corruption ''corrupted key for '', st3)))"

text \<open>
  The files to search in one level. Level 0: every file whose user-key range holds the
  key, newest first (\<open>std::sort\<close> by descending file number; file numbers are unique, so
  the order is determined). Higher levels: the file \<open>FindFile\<close> points at, unless the
  key lies before it. \<open>None\<close> is a \<open>FindFile\<close> that does not return.
\<close>

definition Get_level_files ::
  "'u::linorder Version \<Rightarrow> 'u InternalKey \<Rightarrow> nat \<Rightarrow> 'u FileMetaData list option" where
  "Get_level_files v k level =
     (let files = files' v level; num_files = length files in
      if num_files = 0 then Some []
      else if level = 0 then
        Some (sort_key (\<lambda>f. - int (number f))
               (filter (\<lambda>f. ucmp_Compare (user_key k) (user_key (smallest f)) \<ge> 0 \<and>
                             ucmp_Compare (user_key k) (user_key (largest f)) \<le> 0) files))
      else
        (case FindFile files k of
           None \<Rightarrow> None
         | Some r \<Rightarrow>
             (let index = nat (r mod 2 ^ 32) in
              if index \<ge> num_files then Some []
              else if ucmp_Compare (user_key k) (user_key (smallest (files ! index))) < 0
              then Some []
              else Some [files ! index])))"

fun Get_levels ::
  "'u::linorder TableCacheGet \<Rightarrow> 'u Version \<Rightarrow> 'u InternalKey \<Rightarrow> nat list \<Rightarrow>
   'u GetState \<Rightarrow> (Status \<times> 'u GetState) option" where
  "Get_levels table_get v k [] st = Some (NotFound [], st)"
| "Get_levels table_get v k (level # levels) st =
     (case Get_level_files v k level of
        None \<Rightarrow> None
      | Some files \<Rightarrow>
          (case Get_probe_files table_get k level files st of
             Inl r \<Rightarrow> Some r
           | Inr st' \<Rightarrow> Get_levels table_get v k levels st'))"

definition Get ::
  "'u::linorder TableCacheGet \<Rightarrow> 'u Version \<Rightarrow> 'u InternalKey \<Rightarrow>
   (Status \<times> 'u GetState) option" where
  "Get table_get v k =
     Get_levels table_get v k [0..<kNumLevels]
       \<lparr>stats = \<lparr>seek_file = None, seek_file_level = -1\<rparr>,
        last_file_read = None, last_file_read_level = -1,
        value_out = None, probed = [], charges = 0\<rparr>"


section \<open>Version edits and the version set\<close>

text \<open>
  The fields of \<open>VersionEdit\<close> that this file reads (the class is declared in
  db/version_edit.h); its members carry the prefix \<open>edit_\<close> here to keep them apart
  from the members of \<open>VersionSet\<close> with the same names.
\<close>

record 'u VersionEdit =
  edit_comparator :: string
  edit_log_number :: nat
  edit_prev_log_number :: nat
  edit_next_file_number :: nat
  edit_last_sequence :: nat
  has_comparator :: bool
  has_log_number :: bool
  has_prev_log_number :: bool
  has_next_file_number :: bool
  has_last_sequence :: bool
  compact_pointers :: "(nat \<times> 'u InternalKey) list"
  deleted_files :: "(nat \<times> nat) set"
  new_files :: "(nat \<times> 'u FileMetaData) list"

text \<open>
  The counters and cursors of \<open>VersionSet\<close> and its current Version.
  \<open>compact_pointer_[level]\<close> is an encoded internal key or the empty string, which
  \<open>None\<close> stands for. The manifest writer and the environment are outside this model.
\<close>

record 'u VersionSet =
  next_file_number' :: nat
  manifest_file_number' :: nat
  last_sequence' :: nat
  log_number' :: nat
  prev_log_number' :: nat
  current' :: "'u Version"
  compact_pointer' :: "nat \<Rightarrow> 'u InternalKey option"


section \<open>Builder\<close>
















section \<open>Finalize\<close>
















section \<open>Recover\<close>









section \<open>Compaction planning\<close>

definition new_VersionEdit :: "'u VersionEdit" where
  "new_VersionEdit =
     \<lparr>edit_comparator = [], edit_log_number = 0, edit_prev_log_number = 0,
      edit_next_file_number = 0, edit_last_sequence = 0, has_comparator = False,
      has_log_number = False, has_prev_log_number = False, has_next_file_number = False,
      has_last_sequence = False, compact_pointers = [], deleted_files = {},
      new_files = []\<rparr>"

definition SetCompactPointer ::
  "nat \<Rightarrow> 'u InternalKey \<Rightarrow> 'u VersionEdit \<Rightarrow> 'u VersionEdit" where
  "SetCompactPointer level key edit =
     edit\<lparr>compact_pointers := compact_pointers edit @ [(level, key)]\<rparr>"

text \<open>
  A \<open>Compaction\<close>; \<open>inputs_0\<close> and \<open>inputs_1\<close> are the two elements of the array
  \<open>inputs_\<close>.
\<close>

record 'u Compaction =
  level' :: nat
  max_output_file_size' :: nat
  input_version' :: "'u Version option"
  edit' :: "'u VersionEdit"
  inputs_0 :: "'u FileMetaData list"
  inputs_1 :: "'u FileMetaData list"
  grandparents' :: "'u FileMetaData list"
  grandparent_index' :: nat
  seen_key' :: bool
  overlapped_bytes' :: int
  level_ptrs' :: "nat \<Rightarrow> nat"

definition new_Compaction :: "nat \<Rightarrow> 'u Compaction" where
  "new_Compaction level =
     \<lparr>level' = level, max_output_file_size' = MaxFileSizeForLevel level,
      input_version' = None, edit' = new_VersionEdit, inputs_0 = [], inputs_1 = [],
      grandparents' = [], grandparent_index' = 0, seen_key' = False,
      overlapped_bytes' = 0, level_ptrs' = (\<lambda>i. 0)\<rparr>"

text \<open>
  \<open>GetRange\<close> asserts that its input is not empty. Without the assertion an empty input
  leaves both keys empty, and taking the user key of an empty key reads out of bounds; the
  callers modelled here pass a list that is not empty, and an empty one is a failure in
  either build.
\<close>

definition GetRange ::
  "'u::linorder FileMetaData list \<Rightarrow> failure + ('u InternalKey \<times> 'u InternalKey)" where
  "GetRange inputs =
     (case inputs of
        [] \<Rightarrow> Inl AssertionFailed
      | f # fs \<Rightarrow>
          Inr (fold (\<lambda>g sl.
                 (if icmp_Compare (smallest g) (fst sl) < 0 then smallest g else fst sl,
                  if icmp_Compare (largest g) (snd sl) > 0 then largest g else snd sl))
               fs (smallest f, largest f)))"

definition GetRange2 ::
  "'u::linorder FileMetaData list \<Rightarrow> 'u FileMetaData list \<Rightarrow>
   failure + ('u InternalKey \<times> 'u InternalKey)" where
  "GetRange2 inputs1 inputs2 = GetRange (inputs1 @ inputs2)"

text \<open>
  The block of \<open>SetupOtherInputs\<close> guarded by \<open>!c->inputs_[1].empty()\<close>. It yields the
  two input lists, the range \<open>(smallest, largest)\<close> and the range
  \<open>(all_start, all_limit)\<close> as they stand after the block.
\<close>

definition SetupOtherInputs_expand ::
  "'u::linorder Version \<Rightarrow> nat \<Rightarrow> 'u FileMetaData list \<Rightarrow> 'u FileMetaData list \<Rightarrow>
   'u InternalKey \<times> 'u InternalKey \<Rightarrow> 'u InternalKey \<times> 'u InternalKey \<Rightarrow>
   failure + ('u FileMetaData list \<times> 'u FileMetaData list \<times>
              ('u InternalKey \<times> 'u InternalKey) \<times> ('u InternalKey \<times> 'u InternalKey))" where
  "SetupOtherInputs_expand cur level inputs0 inputs1 sl all_range =
     (if inputs1 \<noteq> [] then
        (let expanded0 = GetOverlappingInputs cur level
                           (Some (fst all_range)) (Some (snd all_range));
             inputs1_size = TotalFileSize inputs1;
             expanded0_size = TotalFileSize expanded0
         in if length expanded0 > length inputs0 \<and>
               int64_add inputs1_size expanded0_size < kExpandedCompactionByteSizeLimit
            then
              (case GetRange expanded0 of
                 Inl e \<Rightarrow> Inl e
               | Inr new_range \<Rightarrow>
                   (let expanded1 = GetOverlappingInputs cur (level + 1)
                                      (Some (fst new_range)) (Some (snd new_range))
                    in if length expanded1 = length inputs1 then
                         (case GetRange2 expanded0 expanded1 of
                            Inl e \<Rightarrow> Inl e
                          | Inr all2 \<Rightarrow> Inr (expanded0, expanded1, new_range, all2))
                       else Inr (inputs0, inputs1, sl, all_range)))
            else Inr (inputs0, inputs1, sl, all_range))
      else Inr (inputs0, inputs1, sl, all_range))"

definition SetupOtherInputs ::
  "'u::linorder VersionSet \<Rightarrow> 'u Compaction \<Rightarrow>
   failure + ('u Compaction \<times> 'u VersionSet)" where
  "SetupOtherInputs vset c =
     (let level = level' c; cur = current' vset in
      case GetRange (inputs_0 c) of
        Inl e \<Rightarrow> Inl e
      | Inr sl \<Rightarrow>
          (let inputs1 = GetOverlappingInputs cur (level + 1) (Some (fst sl)) (Some (snd sl))
           in case GetRange2 (inputs_0 c) inputs1 of
                Inl e \<Rightarrow> Inl e
              | Inr all_range \<Rightarrow>
                  (case SetupOtherInputs_expand cur level (inputs_0 c) inputs1 sl
                          all_range of
                     Inl e \<Rightarrow> Inl e
                   | Inr (inputs0a, inputs1a, sla, alla) \<Rightarrow>
                       Inr (c\<lparr>inputs_0 := inputs0a, inputs_1 := inputs1a,
                              grandparents' :=
                                (if level + 2 < kNumLevels
                                 then GetOverlappingInputs cur (level + 2)
                                        (Some (fst alla)) (Some (snd alla))
                                 else grandparents' c),
                              edit' := SetCompactPointer level (snd sla) (edit' c)\<rparr>,
                            vset\<lparr>compact_pointer' :=
                                   (compact_pointer' vset)(level := Some (snd sla))\<rparr>))))"

text \<open>
  The size loop of \<open>CompactRange\<close>: the input list is cut after the first file at which
  the running total (\<open>total\<close> in the source, \<open>total_size\<close> here) reaches the limit.
  The total is a \<open>uint64_t\<close>, so \<open>total += s\<close> adds modulo \<open>2^64\<close>.
\<close>

fun CompactRange_resize ::
  "nat \<Rightarrow> nat \<Rightarrow> 'u FileMetaData list \<Rightarrow> 'u FileMetaData list" where
  "CompactRange_resize limit total_size [] = []"
| "CompactRange_resize limit total_size (f # fs) =
     (let total1 = (total_size + file_size f) mod 2 ^ 64 in
      if total1 \<ge> limit then [f]
      else f # CompactRange_resize limit total1 fs)"

text \<open>The value of \<open>inputs\<close> that \<open>CompactRange\<close> stores into \<open>c->inputs_[0]\<close>.\<close>

definition CompactRange_inputs ::
  "'u::linorder VersionSet \<Rightarrow> nat \<Rightarrow> 'u InternalKey option \<Rightarrow> 'u InternalKey option \<Rightarrow>
   'u FileMetaData list" where
  "CompactRange_inputs vset level begin_key end_key =
     CompactRange_resize (MaxFileSizeForLevel level) 0
       (GetOverlappingInputs (current' vset) level begin_key end_key)"

text \<open>\<open>CompactRange\<close>: \<open>None\<close> is the \<open>NULL\<close> compaction.\<close>

definition CompactRange ::
  "'u::linorder VersionSet \<Rightarrow> nat \<Rightarrow> 'u InternalKey option \<Rightarrow> 'u InternalKey option \<Rightarrow>
   failure + ('u Compaction option \<times> 'u VersionSet)" where
  "CompactRange vset level begin_key end_key =
     (if GetOverlappingInputs (current' vset) level begin_key end_key = []
      then Inr (None, vset)
      else
        (case SetupOtherInputs vset
                ((new_Compaction level)
                   \<lparr>input_version' := Some (current' vset),
                    inputs_0 := CompactRange_inputs vset level begin_key end_key\<rparr>) of
           Inl e \<Rightarrow> Inl e
         | Inr cv \<Rightarrow> Inr (Some (fst cv), snd cv)))"

section \<open>ShouldStopBefore\<close>

text \<open>
  \<open>overlapped_bytes_\<close> is an \<open>int64_t\<close> to which the loop adds \<open>uint64_t\<close> file
  sizes, as \<open>TotalFileSize\<close> does.
\<close>

function ShouldStopBefore_loop ::
  "'u::linorder FileMetaData list \<Rightarrow> 'u InternalKey \<Rightarrow> bool \<Rightarrow> nat \<Rightarrow> int \<Rightarrow> nat \<times> int" where
  "ShouldStopBefore_loop grandparents internal_key seen_key grandparent_index
     overlapped_bytes =
     (if grandparent_index < length grandparents \<and>
         icmp_Compare internal_key (largest (grandparents ! grandparent_index)) > 0
      then ShouldStopBefore_loop grandparents internal_key seen_key (grandparent_index + 1)
             (if seen_key
              then to_int64 (to_uint64 overlapped_bytes +
                             file_size (grandparents ! grandparent_index))
              else overlapped_bytes)
      else (grandparent_index, overlapped_bytes))"
  by pat_completeness auto
termination
  by (relation "measure (\<lambda>(gs, k, seen, i, ob). length gs - i)") auto

declare ShouldStopBefore_loop.simps [simp del]

definition ShouldStopBefore ::
  "'u::linorder Compaction \<Rightarrow> 'u InternalKey \<Rightarrow> bool \<times> 'u Compaction" where
  "ShouldStopBefore c internal_key =
     (let r = ShouldStopBefore_loop (grandparents' c) internal_key (seen_key' c)
                (grandparent_index' c) (overlapped_bytes' c);
          c1 = c\<lparr>grandparent_index' := fst r, overlapped_bytes' := snd r,
                 seen_key' := True\<rparr>
      in if overlapped_bytes' c1 > kMaxGrandParentOverlapBytes
         then (True, c1\<lparr>overlapped_bytes' := 0\<rparr>)
         else (False, c1))"

section \<open>Predicates of the statements\<close>

text \<open>
  The number of bytes of a list of files, the plain sum of their sizes: \<open>bytes\<close> in the
  specification. It is the value of \<open>TotalFileSize\<close> as long as that stays below
  \<open>2^63\<close>.
\<close>

definition total_bytes :: "'u FileMetaData list \<Rightarrow> nat" where
  "total_bytes files = sum_list (map file_size files)"

text \<open>Two files overlap when their user-key ranges intersect.\<close>

definition user_ranges_overlap :: "'u::linorder FileMetaData \<Rightarrow> 'u FileMetaData \<Rightarrow> bool" where
  "user_ranges_overlap f g =
     (user_key (smallest f) \<le> user_key (largest g) \<and>
      user_key (smallest g) \<le> user_key (largest f))"

text \<open>
  A file overlaps the range of a manual compaction when its user-key range meets
  \<open>[begin, end]\<close>; a missing bound is unbounded.
\<close>

definition overlaps_user_range ::
  "'u::linorder FileMetaData \<Rightarrow> 'u InternalKey option \<Rightarrow> 'u InternalKey option \<Rightarrow> bool" where
  "overlaps_user_range f begin_key end_key =
     ((case begin_key of None \<Rightarrow> True | Some b \<Rightarrow> user_key b \<le> user_key (largest f)) \<and>
      (case end_key of None \<Rightarrow> True | Some e \<Rightarrow> user_key (smallest f) \<le> user_key e))"

text \<open>The files that a scan with the window \<open>user_begin\<close>, \<open>user_end\<close> keeps.\<close>

definition in_window :: "'u::linorder option \<Rightarrow> 'u option \<Rightarrow> 'u FileMetaData \<Rightarrow> bool" where
  "in_window user_begin user_end f =
     (\<not> file_before_range f user_begin \<and> \<not> file_after_range f user_end)"

text \<open>
  The state of a lookup between two probes: nothing is charged before the second probe,
  and from the second probe on the first file probed is charged, once.
\<close>

definition seek_inv :: "'u GetState \<Rightarrow> bool" where
  "seek_inv st =
     (case probed st of
        [] \<Rightarrow> last_file_read st = None \<and> seek_file (stats st) = None \<and>
               seek_file_level (stats st) = -1 \<and> charges st = 0
      | [p] \<Rightarrow> last_file_read st = Some (snd p) \<and> last_file_read_level st = int (fst p) \<and>
               seek_file (stats st) = None \<and> seek_file_level (stats st) = -1 \<and>
               charges st = 0
      | p # q # ps \<Rightarrow> last_file_read st \<noteq> None \<and> seek_file (stats st) = Some (snd p) \<and>
               seek_file_level (stats st) = int (fst p) \<and> charges st = 1)"




text \<open>
  The values that \<open>SetupOtherInputs\<close> computes on its way: \<open>inputs_[1]\<close> as first
  assigned, \<open>expanded0\<close> and \<open>expanded1\<close>; and the three conditions under which the
  spec has the expansion adopted.
\<close>

definition SetupOtherInputs_inputs1 ::
  "'u::linorder VersionSet \<Rightarrow> 'u Compaction \<Rightarrow> 'u FileMetaData list" where
  "SetupOtherInputs_inputs1 vset c =
     (case GetRange (inputs_0 c) of
        Inl e \<Rightarrow> []
      | Inr sl \<Rightarrow> GetOverlappingInputs (current' vset) (level' c + 1)
                   (Some (fst sl)) (Some (snd sl)))"

definition SetupOtherInputs_expanded0 ::
  "'u::linorder VersionSet \<Rightarrow> 'u Compaction \<Rightarrow> 'u FileMetaData list" where
  "SetupOtherInputs_expanded0 vset c =
     (case GetRange2 (inputs_0 c) (SetupOtherInputs_inputs1 vset c) of
        Inl e \<Rightarrow> []
      | Inr all_range \<Rightarrow> GetOverlappingInputs (current' vset) (level' c)
                          (Some (fst all_range)) (Some (snd all_range)))"

definition SetupOtherInputs_expanded1 ::
  "'u::linorder VersionSet \<Rightarrow> 'u Compaction \<Rightarrow> 'u FileMetaData list" where
  "SetupOtherInputs_expanded1 vset c =
     (case GetRange (SetupOtherInputs_expanded0 vset c) of
        Inl e \<Rightarrow> []
      | Inr new_range \<Rightarrow> GetOverlappingInputs (current' vset) (level' c + 1)
                          (Some (fst new_range)) (Some (snd new_range)))"

definition expansion_conditions :: "'u::linorder VersionSet \<Rightarrow> 'u Compaction \<Rightarrow> bool" where
  "expansion_conditions vset c =
     (length (SetupOtherInputs_expanded0 vset c) > length (inputs_0 c) \<and>
      int (total_bytes (SetupOtherInputs_expanded0 vset c)) +
        int (total_bytes (SetupOtherInputs_inputs1 vset c))
        < kExpandedCompactionByteSizeLimit \<and>
      length (SetupOtherInputs_expanded1 vset c) = length (SetupOtherInputs_inputs1 vset c))"

section \<open>Sample data\<close>

text \<open>
  A file with the given number, size and user-key bounds, used for the concrete instances
  below; \<open>allowed_seeks\<close> has the default of the \<open>FileMetaData\<close> constructor.
\<close>

definition file_of :: "nat \<Rightarrow> nat \<Rightarrow> 'u \<Rightarrow> 'u \<Rightarrow> 'u FileMetaData" where
  "file_of n sz lo hi =
     \<lparr>allowed_seeks = 1073741824, number = n, file_size = sz,
      smallest = InternalKey lo 100 kTypeValue, largest = InternalKey hi 1 kTypeValue\<rparr>"

text \<open>
  A Version with the given files and nothing else set, and a version set as its
  constructor leaves it.
\<close>

definition version_of :: "(nat \<Rightarrow> 'u FileMetaData list) \<Rightarrow> 'u Version" where
  "version_of fs = \<lparr> files' = fs, file_to_compact' = None,
     file_to_compact_level' = -1, compaction_score' = -1, compaction_level' = -1 \<rparr>"

definition vset_of :: "'u Version \<Rightarrow> 'u VersionSet" where
  "vset_of v =
     \<lparr>next_file_number' = 2, manifest_file_number' = 0, last_sequence' = 0,
      log_number' = 0, prev_log_number' = 0, current' = v,
      compact_pointer' = (\<lambda>level. None)\<rparr>"

text \<open>Three level-0 files; the first two overlap, the third lies apart.\<close>

definition level0_sample :: "nat Version" where
  "level0_sample =
     version_of ((\<lambda>level. [])(0 := [file_of 1 10 1 3, file_of 2 10 2 5, file_of 3 10 7 8]))"

text \<open>A version set with a single file at level 1.\<close>

definition level1_sample :: "nat VersionSet" where
  "level1_sample = vset_of (version_of ((\<lambda>level. [])(1 := [file_of 1 10 1 3])))"

text \<open>Levels 0 and 1 both at half of their limits: two files, and 5 MiB.\<close>

definition finalize_sample :: "nat Version" where
  "finalize_sample =
     version_of ((\<lambda>level. [])
       (0 := [file_of 1 10 1 3, file_of 2 10 2 5], 1 := [file_of 3 5242880 1 9]))"

text \<open>
  Two level-0 files that both cover user key 2; the table cache finds the key only in
  file 1, the older one.
\<close>

definition get_sample :: "nat Version" where
  "get_sample =
     version_of ((\<lambda>level. [])(0 := [file_of 1 10 1 3, file_of 2 10 2 5]))"

definition get_sample_table :: "nat TableCacheGet" where
  "get_sample_table n sz k =
     (if n = 1 then (OK, Some (Some (InternalKey 2 7 kTypeValue), ''v'')) else (OK, None))"


text \<open>
  A base with two files at level 1 and an edit that deletes the second of them and adds
  two files, one between the base files and one after them.
\<close>

definition saveto_base :: "nat Version" where
  "saveto_base = version_of ((\<lambda>level. [])(1 := [file_of 1 10 1 3, file_of 2 10 7 9]))"

definition saveto_edit :: "nat VersionEdit" where
  "saveto_edit =
     new_VersionEdit\<lparr>deleted_files := {(1, 2)},
                      new_files := [(1, file_of 3 10 4 6), (1, file_of 4 10 10 12)]\<rparr>"

text \<open>
  Three level-1 files of 1.5 MiB each, and two overlapping level-0 files of 3 MiB each
  that lie before them.
\<close>

definition compact_range_sample :: "nat VersionSet" where
  "compact_range_sample =
     vset_of (version_of ((\<lambda>level. [])
       (0 := [file_of 4 3145728 1 5, file_of 5 3145728 3 8],
        1 := [file_of 1 1572864 10 15, file_of 2 1572864 20 25, file_of 3 1572864 30 35])))"

text \<open>
  Two level-1 files that meet at user key 3 (sequence 50 ends the first, sequence 40
  starts the second), level 2 empty, and a compaction of the first file.
\<close>

definition boundary_file_a :: "nat FileMetaData" where
  "boundary_file_a =
     \<lparr>allowed_seeks = 1073741824, number = 1, file_size = 10,
      smallest = InternalKey 1 100 kTypeValue, largest = InternalKey 3 50 kTypeValue\<rparr>"

definition boundary_file_b :: "nat FileMetaData" where
  "boundary_file_b =
     \<lparr>allowed_seeks = 1073741824, number = 2, file_size = 10,
      smallest = InternalKey 3 40 kTypeValue, largest = InternalKey 5 1 kTypeValue\<rparr>"

definition boundary_sample :: "nat VersionSet" where
  "boundary_sample =
     vset_of (version_of ((\<lambda>level. [])(1 := [boundary_file_a, boundary_file_b])))"

definition boundary_compaction :: "nat Compaction" where
  "boundary_compaction =
     (new_Compaction 1)\<lparr>input_version' := Some (current' boundary_sample),
                         inputs_0 := [boundary_file_a]\<rparr>"

text \<open>
  A level-0 file over user keys 2..4 with a neighbour over 5..6, two level-1 files over
  1..3 and 4..5, and a compaction of the first level-0 file.
\<close>

definition expansion_sample :: "nat VersionSet" where
  "expansion_sample =
     vset_of (version_of ((\<lambda>level. [])
       (0 := [file_of 1 10 2 4, file_of 2 10 5 6],
        1 := [file_of 3 10 1 3, file_of 4 10 4 5])))"

definition expansion_compaction :: "nat Compaction" where
  "expansion_compaction =
     (new_Compaction 0)\<lparr>input_version' := Some (current' expansion_sample),
                         inputs_0 := [file_of 1 10 2 4]\<rparr>"

section \<open>Binary search in a sorted level\<close>

lemma level_sorted_largest_mono_aux:
  "level_sorted (f # fs) \<Longrightarrow> files_well_formed (f # fs) \<Longrightarrow> g \<in> set fs \<Longrightarrow> largest f < smallest g"
proof (induction fs arbitrary: f)
  case Nil then show ?case by simp
next
  case (Cons h fs)
  have fh: "largest f < smallest h" using Cons.prems(1) by (simp add: less_InternalKey_def)
  show ?case
  proof (cases "g = h")
    case True then show ?thesis using fh by simp
  next
    case False
    then have "g \<in> set fs" using Cons.prems(3) by simp
    moreover have "level_sorted (h # fs)" using Cons.prems(1) by simp
    moreover have "files_well_formed (h # fs)" using Cons.prems(2) by (simp add: files_well_formed_def)
    ultimately have "largest h < smallest g" by (rule Cons.IH[rotated 2])
    moreover have "smallest h \<le> largest h" using Cons.prems(2) by (simp add: files_well_formed_def less_eq_InternalKey_def)
    ultimately show ?thesis using fh by order
  qed
qed

lemma level_sorted_nth:
  "level_sorted fs \<Longrightarrow> files_well_formed fs \<Longrightarrow> i < j \<Longrightarrow> j < length fs \<Longrightarrow> largest (fs ! i) < smallest (fs ! j)"
proof (induction fs arbitrary: i j)
  case Nil then show ?case by simp
next
  case (Cons f fs)
  obtain j' where j: "j = Suc j'" using Cons.prems(3) by (cases j) auto
  show ?case
  proof (cases i)
    case 0
    have "fs ! j' \<in> set fs" using Cons.prems(4) j by simp
    then show ?thesis using level_sorted_largest_mono_aux[OF Cons.prems(1,2)] 0 j by simp
  next
    case (Suc i')
    have "level_sorted fs" using Cons.prems(1) by (cases fs) auto
    moreover have "files_well_formed fs" using Cons.prems(2) by (simp add: files_well_formed_def)
    ultimately show ?thesis using Cons.IH[of i' j'] Cons.prems(3,4) Suc j by simp
  qed
qed

lemma level_sorted_largest_mono:
  assumes "level_sorted fs" "files_well_formed fs" "i \<le> j" "j < length fs"
  shows "largest (fs ! i) \<le> largest (fs ! j)"
proof (cases "i = j")
  case True then show ?thesis by simp
next
  case False
  then have "largest (fs ! i) < smallest (fs ! j)" using level_sorted_nth[OF assms(1,2)] assms(3,4) by simp
  moreover have "smallest (fs ! j) \<le> largest (fs ! j)"
    using assms(2,4) by (simp add: files_well_formed_def list_all_length less_eq_InternalKey_def)
  ultimately show ?thesis by order
qed

lemma FindFile_loop_correct:
  assumes mono: "\<And>i j. i \<le> j \<Longrightarrow> j < length files \<Longrightarrow> largest (files ! i) \<le> largest (files ! j)"
    and len: "length files < 2 ^ 31"
  shows "left \<le> right \<Longrightarrow> right \<le> length files \<Longrightarrow>
         (\<forall>j<left. largest (files ! j) < key) \<Longrightarrow>
         (right < length files \<longrightarrow> \<not> largest (files ! right) < key) \<Longrightarrow>
         \<exists>r. FindFile_loop files key left right = Some r \<and> r \<le> length files \<and>
             (\<forall>j<r. largest (files ! j) < key) \<and>
             (r < length files \<longrightarrow> \<not> largest (files ! r) < key)"
proof (induction "right - left" arbitrary: left right rule: less_induct)
  case less
  show ?case
  proof (cases "left < right")
    case False
    then have "left = right" using less.prems(1) by simp
    then show ?thesis using less.prems by (subst FindFile_loop.simps) simp
  next
    case True
    define mid where "mid = (left + right) div 2"
    have "left + right < 2 ^ 32" using len less.prems(1,2) by simp
    then have h: "((left + right) mod 2 ^ 32) div 2 = mid" by (simp add: mid_def)
    have mid: "mid = (left + right) div 2" by (simp add: mid_def)
    have ml: "left \<le> mid" "mid < right" using True mid by auto
    have mlen: "mid < length files" using ml less.prems(2) by simp
    have m1: "(mid + 1) mod 2 ^ 32 = mid + 1" using mlen len by simp
    show ?thesis
    proof (cases "largest (files ! mid) < key")
      case lt: True
      have "\<forall>j<mid + 1. largest (files ! j) < key"
      proof (intro allI impI)
        fix j assume "j < mid + 1"
        then have "largest (files ! j) \<le> largest (files ! mid)" using mono[of j mid] mlen by simp
        then show "largest (files ! j) < key" using lt by order
      qed
      then have "\<exists>r. FindFile_loop files key (mid + 1) right = Some r \<and> r \<le> length files \<and>
             (\<forall>j<r. largest (files ! j) < key) \<and>
             (r < length files \<longrightarrow> \<not> largest (files ! r) < key)"
        using less.hyps[of right "mid + 1"] ml less.prems by simp
      moreover have "FindFile_loop files key left right = FindFile_loop files key (mid + 1) right"
        using True mlen lt m1 h by (subst FindFile_loop.simps) (simp add: less_InternalKey_def Let_def)
      ultimately show ?thesis by simp
    next
      case ge: False
      have "\<exists>r. FindFile_loop files key left mid = Some r \<and> r \<le> length files \<and>
             (\<forall>j<r. largest (files ! j) < key) \<and>
             (r < length files \<longrightarrow> \<not> largest (files ! r) < key)"
        using less.hyps[of mid left] ml less.prems mlen ge by simp
      moreover have "FindFile_loop files key left right = FindFile_loop files key left mid"
        using True mlen ge h by (subst FindFile_loop.simps) (simp add: less_InternalKey_def Let_def)
      ultimately show ?thesis by simp
    qed
  qed
qed

text \<open>
  Claim C3. On a list of files that is sorted by smallest key and pairwise disjoint (each
  file with its smallest key not above its largest, and fewer than \<open>2^31\<close> files, so
  that the 32-bit indices do not wrap), \<open>FindFile\<close> returns, and its result is the
  smallest index \<open>i\<close> whose file has \<open>largest \<ge> key\<close>, or the length of the list
  when there is no such file.
\<close>

theorem FindFile_smallest_index:
  assumes "level_sorted files" and "files_well_formed files" and "length files < 2 ^ 31"
  shows "\<exists>i. FindFile files key = Some (int i) \<and> i \<le> length files \<and>
             (\<forall>j<i. icmp_Compare (largest (files ! j)) key < 0) \<and>
             (i < length files \<longrightarrow> icmp_Compare (largest (files ! i)) key \<ge> 0)"
proof -
  have mono: "\<And>i j. i \<le> j \<Longrightarrow> j < length files \<Longrightarrow> largest (files ! i) \<le> largest (files ! j)"
    using level_sorted_largest_mono[OF assms(1,2)] by blast
  have len32: "length files mod 2 ^ 32 = length files" using assms(3) by simp
  obtain r where r: "FindFile_loop files key 0 (length files) = Some r" "r \<le> length files"
      "\<forall>j<r. largest (files ! j) < key" "r < length files \<longrightarrow> \<not> largest (files ! r) < key"
    using FindFile_loop_correct[OF mono assms(3), of 0 "length files" key] by auto
  have "uint32_to_int r = int r" using r(2) assms(3) by (simp add: uint32_to_int_def)
  then have "FindFile files key = Some (int r)" using r(1) len32 by (simp add: FindFile_def)
  then show ?thesis using r(2,3,4) by (auto simp: less_InternalKey_def not_less)
qed

theorem FindFile_smallest_index_witness:
  "level_sorted [file_of 1 10 (1::nat) 3, file_of 2 10 5 7] \<and>
   files_well_formed [file_of 1 10 (1::nat) 3, file_of 2 10 5 7] \<and>
   length [file_of 1 10 (1::nat) 3, file_of 2 10 5 7] < 2 ^ 31 \<and>
   FindFile [file_of 1 10 (1::nat) 3, file_of 2 10 5 7] (InternalKey 4 50 kTypeValue) = Some 1"
proof -
  let ?fs = "[file_of 1 10 (1::nat) 3, file_of 2 10 5 7]"
  let ?k = "InternalKey (4::nat) 50 kTypeValue"
  have h1: "level_sorted ?fs"
    by (simp add: file_of_def icmp_Compare_def ucmp_Compare_def)
  have h2: "files_well_formed ?fs"
    by (simp add: files_well_formed_def file_of_def icmp_Compare_def ucmp_Compare_def)
  have h3: "length ?fs < 2 ^ 31" by simp
  obtain i where i: "FindFile ?fs ?k = Some (int i)" "i \<le> length ?fs"
      "\<forall>j<i. icmp_Compare (largest (?fs ! j)) ?k < 0"
      "i < length ?fs \<longrightarrow> icmp_Compare (largest (?fs ! i)) ?k \<ge> 0"
    using FindFile_smallest_index[OF h1 h2 h3, of ?k] by blast
  have "i \<noteq> 0"
  proof
    assume "i = 0"
    then have "icmp_Compare (largest (?fs ! 0)) ?k \<ge> 0" using i(4) by simp
    then show False by (simp add: file_of_def icmp_Compare_def ucmp_Compare_def)
  qed
  moreover have "i < 2"
  proof (rule ccontr)
    assume "\<not> i < 2"
    then have "1 < i" by simp
    moreover have "1 < i \<longrightarrow> icmp_Compare (largest (?fs ! 1)) ?k < 0"
      using i(3) by blast
    ultimately have "icmp_Compare (largest (?fs ! 1)) ?k < 0" by blast
    then show False by (simp add: file_of_def icmp_Compare_def ucmp_Compare_def)
  qed
  ultimately have "i = 1" by simp
  then show ?thesis using h1 h2 h3 i(1) by simp
qed

section \<open>The first call of ShouldStopBefore\<close>

lemma ShouldStopBefore_loop_unseen:
  "snd (ShouldStopBefore_loop gs k False i ob) = ob"
  by (induction gs k "False" i ob rule: ShouldStopBefore_loop.induct)
     (subst ShouldStopBefore_loop.simps, simp)

text \<open>
  Claim C9. On a Compaction as the constructor leaves it, whatever inputs, grandparents,
  input version and edit the planner has stored in it since, the first call of
  \<open>ShouldStopBefore\<close> returns false for every internal key: \<open>seen_key_\<close> is still
  false, so no grandparent size is added to \<open>overlapped_bytes_\<close>, which stays 0.
\<close>

theorem ShouldStopBefore_first_call:
  "fst (ShouldStopBefore
          ((new_Compaction level)\<lparr>input_version' := v, edit' := e, inputs_0 := i0,
             inputs_1 := i1, grandparents' := gs\<rparr>) k) = False"
  by (simp add: ShouldStopBefore_def new_Compaction_def ShouldStopBefore_loop_unseen
      kMaxGrandParentOverlapBytes_def Let_def)

theorem ShouldStopBefore_first_call_witness:
  "fst (ShouldStopBefore
          ((new_Compaction 1)\<lparr>input_version' := Some level0_sample, edit' := new_VersionEdit,
             inputs_0 := [file_of 1 10 1 3], inputs_1 := [],
             grandparents' := [file_of 5 30000000 1 2, file_of 6 30000000 3 4]\<rparr>)
          (InternalKey 9 1 kTypeValue)) = False"
  by (rule ShouldStopBefore_first_call)

section \<open>CompactRange on a range without files\<close>

lemma GetOverlappingInputs_loop_none:
  assumes "\<forall>f\<in>set files. \<not> in_window user_begin user_end f"
  shows "GetOverlappingInputs_loop level0 files user_begin user_end i [] = []"
  using assms
proof (induction "length files - i" arbitrary: i)
  case 0
  then show ?case by (subst GetOverlappingInputs_loop.simps) simp
next
  case (Suc n)
  then have i: "i < length files" by simp
  then have "\<not> in_window user_begin user_end (files ! i)" using Suc.prems by simp
  moreover have "GetOverlappingInputs_loop level0 files user_begin user_end (i + 1) [] = []"
    using Suc.hyps(1)[of "i + 1"] Suc.hyps(2) Suc.prems by simp
  ultimately show ?case using i
    by (subst GetOverlappingInputs_loop.simps) (auto simp: in_window_def)
qed

lemma overlaps_user_range_window:
  "overlaps_user_range f b e = in_window (map_option user_key b) (map_option user_key e) f"
  by (auto simp: overlaps_user_range_def in_window_def file_before_range_def
      file_after_range_def ucmp_Compare_def split: option.splits)

text \<open>
  Claim C10. When no file of the level overlaps the range (either bound may be missing),
  \<open>CompactRange\<close> returns the \<open>NULL\<close> compaction and leaves the version set as it
  was; it does not build a compaction with an empty input set.
\<close>

theorem CompactRange_no_overlap:
  assumes "\<forall>f\<in>set (files' (current' vset) level). \<not> overlaps_user_range f begin_key end_key"
  shows "CompactRange vset level begin_key end_key = Inr (None, vset)"
proof -
  have "GetOverlappingInputs (current' vset) level begin_key end_key = []"
    unfolding GetOverlappingInputs_def
    by (rule GetOverlappingInputs_loop_none) (use assms in \<open>simp add: overlaps_user_range_window\<close>)
  then show ?thesis by (simp add: CompactRange_def)
qed

theorem CompactRange_no_overlap_witness:
  "\<not> overlaps_user_range (file_of 1 10 (1::nat) 3)
       (Some (InternalKey 5 9 kTypeValue)) (Some (InternalKey 6 0 kTypeDeletion)) \<and>
   CompactRange level1_sample 1
       (Some (InternalKey 5 9 kTypeValue)) (Some (InternalKey 6 0 kTypeDeletion))
     = Inr (None, level1_sample)"
proof -
  have h: "\<forall>f\<in>set (files' (current' level1_sample) 1).
      \<not> overlaps_user_range f
           (Some (InternalKey 5 9 kTypeValue)) (Some (InternalKey 6 0 kTypeDeletion))"
    by (simp add: level1_sample_def vset_of_def version_of_def new_Version_def
        overlaps_user_range_def file_of_def)
  have "\<not> overlaps_user_range (file_of 1 10 (1::nat) 3)
       (Some (InternalKey 5 9 kTypeValue)) (Some (InternalKey 6 0 kTypeDeletion))"
    by (simp add: overlaps_user_range_def file_of_def)
  then show ?thesis using CompactRange_no_overlap [OF h] by simp
qed

section \<open>Level-0 overlap closure\<close>

lemma GetOverlappingInputs_loop_level0:
  assumes "i \<le> length files"
    and "inputs = filter (in_window user_begin user_end) (take i files)"
    and "\<forall>g\<in>set inputs. \<not> file_widens_begin g user_begin \<and> \<not> file_widens_end g user_end"
  shows "\<exists>ub ue. GetOverlappingInputs_loop True files user_begin user_end i inputs
                   = filter (in_window ub ue) files \<and>
                 (\<forall>g\<in>set (filter (in_window ub ue) files).
                     \<not> file_widens_begin g ub \<and> \<not> file_widens_end g ue)"
  using assms
proof (induction True files user_begin user_end i inputs rule: GetOverlappingInputs_loop.induct)
  case (1 files user_begin user_end i inputs)
  show ?case
  proof (cases "i < length files")
    case False
    then have "take i files = files" using "1.prems"(1) by simp
    then show ?thesis using "1.prems" False
      by (subst GetOverlappingInputs_loop.simps) auto
  next
    case True
    have tk: "take (i + 1) files = take i files @ [files ! i]"
      using True by (simp add: take_Suc_conv_app_nth)
    consider (before) "file_before_range (files ! i) user_begin"
      | (after) "\<not> file_before_range (files ! i) user_begin" "file_after_range (files ! i) user_end"
      | (wb) "\<not> file_before_range (files ! i) user_begin" "\<not> file_after_range (files ! i) user_end"
             "file_widens_begin (files ! i) user_begin"
      | (we) "\<not> file_before_range (files ! i) user_begin" "\<not> file_after_range (files ! i) user_end"
             "\<not> file_widens_begin (files ! i) user_begin" "file_widens_end (files ! i) user_end"
      | (add) "\<not> file_before_range (files ! i) user_begin" "\<not> file_after_range (files ! i) user_end"
             "\<not> file_widens_begin (files ! i) user_begin" "\<not> file_widens_end (files ! i) user_end"
      by blast
    then show ?thesis
    proof cases
      case before
      have "\<exists>ub ue. GetOverlappingInputs_loop True files user_begin user_end (i + 1) inputs
                   = filter (in_window ub ue) files \<and>
                 (\<forall>g\<in>set (filter (in_window ub ue) files).
                     \<not> file_widens_begin g ub \<and> \<not> file_widens_end g ue)"
        by (rule "1.hyps"(1)) (use True "1.prems" before tk in \<open>auto simp: in_window_def\<close>)
      then show ?thesis using True before by (subst GetOverlappingInputs_loop.simps) simp
    next
      case after
      have "\<exists>ub ue. GetOverlappingInputs_loop True files user_begin user_end (i + 1) inputs
                   = filter (in_window ub ue) files \<and>
                 (\<forall>g\<in>set (filter (in_window ub ue) files).
                     \<not> file_widens_begin g ub \<and> \<not> file_widens_end g ue)"
        by (rule "1.hyps"(2)) (use True "1.prems" after tk in \<open>auto simp: in_window_def\<close>)
      then show ?thesis using True after by (subst GetOverlappingInputs_loop.simps) simp
    next
      case wb
      have "\<exists>ub ue. GetOverlappingInputs_loop True files
                       (Some (user_key (smallest (files ! i)))) user_end 0 []
                   = filter (in_window ub ue) files \<and>
                 (\<forall>g\<in>set (filter (in_window ub ue) files).
                     \<not> file_widens_begin g ub \<and> \<not> file_widens_end g ue)"
        by (rule "1.hyps"(3)) (use True wb in auto)
      then show ?thesis using True wb by (subst GetOverlappingInputs_loop.simps) simp
    next
      case we
      have "\<exists>ub ue. GetOverlappingInputs_loop True files
                       user_begin (Some (user_key (largest (files ! i)))) 0 []
                   = filter (in_window ub ue) files \<and>
                 (\<forall>g\<in>set (filter (in_window ub ue) files).
                     \<not> file_widens_begin g ub \<and> \<not> file_widens_end g ue)"
        by (rule "1.hyps"(4)) (use True we in auto)
      then show ?thesis using True we by (subst GetOverlappingInputs_loop.simps) simp
    next
      case add
      have "\<exists>ub ue. GetOverlappingInputs_loop True files user_begin user_end (i + 1)
                       (inputs @ [files ! i])
                   = filter (in_window ub ue) files \<and>
                 (\<forall>g\<in>set (filter (in_window ub ue) files).
                     \<not> file_widens_begin g ub \<and> \<not> file_widens_end g ue)"
        by (rule "1.hyps"(5)) (use True "1.prems" add tk in \<open>auto simp: in_window_def\<close>)
      then show ?thesis using True add by (subst GetOverlappingInputs_loop.simps) simp
    qed
  qed
qed

text \<open>
  Claim C4. For every Version and every range of user keys, bounded or not,
  \<open>GetOverlappingInputs\<close> at level 0 returns a set of files closed under overlap: no
  level-0 file outside the result overlaps, by user-key range, a file inside it. The scan
  with its restarts always ends: \<open>GetOverlappingInputs_loop\<close> is a total function, its
  termination proved above with the measure \<open>window_slack\<close>.
\<close>

theorem GetOverlappingInputs_level0_closed:
  "\<forall>f\<in>set (files' v 0) - set (GetOverlappingInputs v 0 begin_key end_key).
     \<forall>g\<in>set (GetOverlappingInputs v 0 begin_key end_key). \<not> user_ranges_overlap f g"
proof -
  obtain ub ue where r: "GetOverlappingInputs v 0 begin_key end_key
        = filter (in_window ub ue) (files' v 0)"
      "\<forall>g\<in>set (filter (in_window ub ue) (files' v 0)).
          \<not> file_widens_begin g ub \<and> \<not> file_widens_end g ue"
    using GetOverlappingInputs_loop_level0[of 0 "files' v 0" "[]"
        "map_option user_key begin_key" "map_option user_key end_key"]
    unfolding GetOverlappingInputs_def by auto
  show ?thesis
  proof (intro ballI)
    fix f g
    assume f: "f \<in> set (files' v 0) - set (GetOverlappingInputs v 0 begin_key end_key)"
      and g: "g \<in> set (GetOverlappingInputs v 0 begin_key end_key)"
    have fo: "file_before_range f ub \<or> file_after_range f ue"
      using f r(1) by (auto simp: in_window_def)
    have gi: "\<not> file_widens_begin g ub" "\<not> file_widens_end g ue"
      using g r by auto
    show "\<not> user_ranges_overlap f g"
      using fo gi
      by (auto simp: user_ranges_overlap_def file_before_range_def file_after_range_def
          file_widens_begin_def file_widens_end_def ucmp_Compare_def
          split: option.splits if_splits)
  qed
qed

lemma level0_sample_overlapping:
  "GetOverlappingInputs level0_sample 0
     (Some (InternalKey 2 9 kTypeValue)) (Some (InternalKey 2 0 kTypeDeletion))
   = [file_of 1 10 1 3, file_of 2 10 2 5]"
  by (simp add: GetOverlappingInputs_def level0_sample_def version_of_def new_Version_def
      GetOverlappingInputs_loop.simps file_before_range_def file_after_range_def
      file_widens_begin_def file_widens_end_def ucmp_Compare_def file_of_def)

theorem GetOverlappingInputs_level0_closed_witness:
  "file_of 3 10 7 8 \<in> set (files' level0_sample 0) -
       set (GetOverlappingInputs level0_sample 0
              (Some (InternalKey 2 9 kTypeValue)) (Some (InternalKey 2 0 kTypeDeletion))) \<and>
   file_of 2 10 2 5 \<in> set (GetOverlappingInputs level0_sample 0
              (Some (InternalKey 2 9 kTypeValue)) (Some (InternalKey 2 0 kTypeDeletion))) \<and>
   \<not> user_ranges_overlap (file_of 3 10 (7::nat) 8) (file_of 2 10 2 5)"
proof -
  have a: "file_of 3 10 7 8 \<in> set (files' level0_sample 0) -
       set (GetOverlappingInputs level0_sample 0
              (Some (InternalKey 2 9 kTypeValue)) (Some (InternalKey 2 0 kTypeDeletion)))"
    unfolding level0_sample_overlapping
    by (simp add: level0_sample_def version_of_def new_Version_def file_of_def)
  have b: "file_of 2 10 2 5 \<in> set (GetOverlappingInputs level0_sample 0
              (Some (InternalKey 2 9 kTypeValue)) (Some (InternalKey 2 0 kTypeDeletion)))"
    unfolding level0_sample_overlapping by simp
  show ?thesis
    using GetOverlappingInputs_level0_closed [of level0_sample
        "Some (InternalKey 2 9 kTypeValue)" "Some (InternalKey 2 0 kTypeDeletion)"] a b
    by blast
qed

section \<open>Seek accounting in Get\<close>

lemma seek_inv_probe:
  assumes "seek_inv st"
  shows "seek_inv ((note_file_read level f (charge_first_seek st))\<lparr>value_out := x\<rparr>)"
proof (cases "probed st")
  case Nil
  then show ?thesis using assms
    by (simp add: seek_inv_def note_file_read_def charge_first_seek_def)
next
  case (Cons p ps)
  show ?thesis
  proof (cases ps)
    case Nil
    then show ?thesis using assms Cons
      by (simp add: seek_inv_def note_file_read_def charge_first_seek_def)
  next
    case (Cons q qs)
    then show ?thesis using assms \<open>probed st = p # ps\<close>
      by (auto simp: seek_inv_def note_file_read_def charge_first_seek_def)
  qed
qed

lemma Get_probe_files_inv:
  "seek_inv st \<Longrightarrow>
   (case Get_probe_files table_get k level fs st of
      Inl r \<Rightarrow> seek_inv (snd r) | Inr st' \<Rightarrow> seek_inv st')"
proof (induction fs arbitrary: st)
  case Nil
  then show ?case by simp
next
  case (Cons f fs)
  define st3 where "st3 = (note_file_read level f (charge_first_seek st))
      \<lparr>value_out := saver_value
         (case snd (table_get (number f) (file_size f) k) of
            None \<Rightarrow> \<lparr>state = kNotFound, saver_user_key = user_key k,
                     saver_value = value_out (note_file_read level f (charge_first_seek st))\<rparr>
          | Some (ikey, v) \<Rightarrow>
              SaveValue \<lparr>state = kNotFound, saver_user_key = user_key k,
                 saver_value = value_out (note_file_read level f (charge_first_seek st))\<rparr>
                ikey v)\<rparr>"
  have i3: "seek_inv st3" unfolding st3_def by (rule seek_inv_probe[OF Cons.prems])
  have rec: "case Get_probe_files table_get k level fs st3 of
      Inl r \<Rightarrow> seek_inv (snd r) | Inr st' \<Rightarrow> seek_inv st'"
    by (rule Cons.IH[OF i3])
  show ?case
    using i3 rec
    by (simp add: Let_def st3_def[symmetric] split: SaverState.splits)
qed

lemma Get_levels_inv:
  "seek_inv st \<Longrightarrow> Get_levels table_get v k levels st = Some (s, st') \<Longrightarrow> seek_inv st'"
proof (induction levels arbitrary: st)
  case Nil
  then show ?case by simp
next
  case (Cons level levels)
  from Cons.prems(2) obtain fs where fs: "Get_level_files v k level = Some fs"
    by (auto split: option.splits)
  note pi = Get_probe_files_inv[OF Cons.prems(1), of table_get k level fs]
  show ?case
  proof (cases "Get_probe_files table_get k level fs st")
    case (Inl r)
    then show ?thesis using Cons.prems(2) fs pi by auto
  next
    case (Inr st1)
    then have "seek_inv st1" using pi by simp
    moreover have "Get_levels table_get v k levels st1 = Some (s, st')"
      using Cons.prems(2) fs Inr by simp
    ultimately show ?thesis by (rule Cons.IH)
  qed
qed

text \<open>
  \<open>Get\<close> returns whenever no level holds \<open>2^31\<close> files or more: the binary search
  of \<open>FindFile\<close> then ends at every level.
\<close>

lemma FindFile_loop_returns:
  assumes len: "length files < 2 ^ 31"
  shows "left \<le> right \<Longrightarrow> right \<le> length files \<Longrightarrow>
         \<exists>r. FindFile_loop files key left right = Some r"
proof (induction "right - left" arbitrary: left right rule: less_induct)
  case less
  show ?case
  proof (cases "left < right")
    case False
    then show ?thesis by (subst FindFile_loop.simps) simp
  next
    case True
    define mid where "mid = (left + right) div 2"
    have "left + right < 2 ^ 32" using len less.prems by simp
    then have h: "((left + right) mod 2 ^ 32) div 2 = mid" by (simp add: mid_def)
    have ml: "left \<le> mid" "mid < right" using True by (auto simp: mid_def)
    have mlen: "mid < length files" using ml less.prems(2) by simp
    have m1: "(mid + 1) mod 2 ^ 32 = mid + 1" using mlen len by simp
    have a: "\<exists>r. FindFile_loop files key (mid + 1) right = Some r"
      using less.hyps[of right "mid + 1"] ml less.prems by simp
    have b: "\<exists>r. FindFile_loop files key left mid = Some r"
      using less.hyps[of mid left] ml less.prems by simp
    show ?thesis
      using True mlen m1 h a b
      by (subst FindFile_loop.simps) (simp add: Let_def)
  qed
qed

lemma Get_level_files_returns:
  "length (files' v level) < 2 ^ 31 \<Longrightarrow> \<exists>fs. Get_level_files v k level = Some fs"
  using FindFile_loop_returns[of "files' v level" 0 "length (files' v level)" k]
  by (auto simp: Get_level_files_def FindFile_def Let_def)

lemma Get_levels_returns:
  "\<forall>level. length (files' v level) < 2 ^ 31 \<Longrightarrow>
   \<exists>r. Get_levels table_get v k levels st = Some r"
proof (induction levels arbitrary: st)
  case Nil
  then show ?case by simp
next
  case (Cons level levels)
  obtain fs where "Get_level_files v k level = Some fs"
    using Get_level_files_returns Cons.prems by blast
  then show ?case using Cons.IH[OF Cons.prems]
    by (cases "Get_probe_files table_get k level fs st") auto
qed

lemma Get_returns:
  "\<forall>level. length (files' v level) < 2 ^ 31 \<Longrightarrow> \<exists>r. Get table_get v k = Some r"
  unfolding Get_def by (rule Get_levels_returns)

text \<open>
  Claim C7. For every call of \<open>Version::Get\<close> that returns: when at most one file was
  probed, \<open>stats.seek_file\<close> is still unset (with level -1) and was never assigned;
  when two or more files were probed, \<open>stats.seek_file\<close> was assigned exactly once and
  holds the first file probed, with its level. So one call charges at most one file.
\<close>

theorem Get_charges_first_file_once:
  assumes "Get table_get v k = Some (s, st)"
  shows "(length (probed st) \<le> 1 \<longrightarrow>
            seek_file (stats st) = None \<and> seek_file_level (stats st) = -1 \<and> charges st = 0) \<and>
         (2 \<le> length (probed st) \<longrightarrow>
            seek_file (stats st) = Some (snd (hd (probed st))) \<and>
            seek_file_level (stats st) = int (fst (hd (probed st))) \<and> charges st = 1)"
proof -
  have "seek_inv \<lparr>stats = \<lparr>seek_file = None, seek_file_level = -1\<rparr>,
        last_file_read = None, last_file_read_level = -1,
        value_out = None, probed = [], charges = 0\<rparr>"
    by (simp add: seek_inv_def)
  then have "seek_inv st"
    using assms unfolding Get_def by (rule Get_levels_inv)
  then show ?thesis
    by (cases "probed st"; cases "tl (probed st)") (auto simp: seek_inv_def)
qed

lemma get_sample_level0:
  "Get_level_files get_sample (InternalKey 2 50 kTypeValue) 0
     = Some [file_of 2 10 2 5, file_of 1 10 1 3]"
  by (simp add: Get_level_files_def get_sample_def version_of_def new_Version_def
      file_of_def ucmp_Compare_def)

lemma get_sample_run:
  "\<exists>st. Get get_sample_table get_sample (InternalKey 2 50 kTypeValue) = Some (OK, st) \<and>
      probed st = [(0, file_of 2 10 2 5), (0, file_of 1 10 1 3)] \<and>
      value_out st = Some ''v''"
  unfolding Get_def kNumLevels_def
  by (simp add: upt_rec get_sample_level0 get_sample_table_def file_of_def ok_def
      note_file_read_def charge_first_seek_def SaveValue_def ucmp_Compare_def)

theorem Get_charges_first_file_once_witness:
  "(case Get get_sample_table get_sample (InternalKey 2 50 kTypeValue) of
      None \<Rightarrow> False
    | Some (s, st) \<Rightarrow>
        s = OK \<and> probed st = [(0, file_of 2 10 2 5), (0, file_of 1 10 1 3)] \<and>
        seek_file (stats st) = Some (file_of 2 10 2 5) \<and>
        seek_file_level (stats st) = 0 \<and> charges st = 1)"
proof -
  obtain st where st:
      "Get get_sample_table get_sample (InternalKey 2 50 kTypeValue) = Some (OK, st)"
      "probed st = [(0, file_of 2 10 2 5), (0, file_of 1 10 1 3)]"
    using get_sample_run by blast
  have "seek_file (stats st) = Some (snd (hd (probed st))) \<and>
        seek_file_level (stats st) = int (fst (hd (probed st))) \<and> charges st = 1"
    using Get_charges_first_file_once [OF st(1)] st(2) by simp
  then show ?thesis using st by simp
qed

section \<open>Recover on a manifest with a missing record\<close>







section \<open>The size cut of CompactRange\<close>

lemma CompactRange_resize_prefix:
  assumes "t < limit" and "t + total_bytes fs < 2 ^ 64"
  shows "CompactRange_resize limit t fs = take (length (CompactRange_resize limit t fs)) fs \<and>
         (fs \<noteq> [] \<longrightarrow> CompactRange_resize limit t fs \<noteq> []) \<and>
         t + total_bytes (butlast (CompactRange_resize limit t fs)) < limit \<and>
         (length (CompactRange_resize limit t fs) < length fs \<longrightarrow>
            limit \<le> t + total_bytes (CompactRange_resize limit t fs))"
  using assms
proof (induction fs arbitrary: t)
  case Nil
  then show ?case by (simp add: total_bytes_def)
next
  case (Cons f fs)
  have nowrap: "(t + file_size f) mod 2 ^ 64 = t + file_size f"
    using Cons.prems(2) by (simp add: total_bytes_def)
  show ?case
  proof (cases "t + file_size f \<ge> limit")
    case True
    then show ?thesis using Cons.prems(1) nowrap by (simp add: total_bytes_def)
  next
    case False
    then have lt: "t + file_size f < limit" by simp
    have "t + file_size f + total_bytes fs < 2 ^ 64"
      using Cons.prems(2) by (simp add: total_bytes_def)
    note ih = Cons.IH[OF lt this]
    show ?thesis
    proof (cases "CompactRange_resize limit (t + file_size f) fs = []")
      case True
      then have "fs = []" using ih by auto
      then show ?thesis using False lt nowrap by (simp add: total_bytes_def)
    next
      case ne: False
      then show ?thesis using False ih nowrap
        by (auto simp: total_bytes_def add.assoc)
    qed
  qed
qed

text \<open>
  Claim C2, amended. For \<open>CompactRange(level, begin, end)\<close> with \<open>level \<ge> 1\<close> and at
  least one overlapping file, the sizes of the overlapping files adding up to less than
  \<open>2^64\<close> bytes: the input list handed to \<open>SetupOtherInputs\<close> is a non-empty prefix of
  the overlapping files, cut right after the first file at which the running total of the
  file sizes reaches \<open>MaxFileSizeForLevel(level)\<close>. The selected files without the last
  one total less than that limit; the whole selection reaches the limit whenever something
  was cut off, and may exceed it.
\<close>

theorem CompactRange_size_cut:
  assumes "1 \<le> level"
    and "GetOverlappingInputs (current' vset) level begin_key end_key \<noteq> []"
    and "total_bytes (GetOverlappingInputs (current' vset) level begin_key end_key) < 2 ^ 64"
  shows "CompactRange_inputs vset level begin_key end_key \<noteq> [] \<and>
         CompactRange_inputs vset level begin_key end_key =
           take (length (CompactRange_inputs vset level begin_key end_key))
             (GetOverlappingInputs (current' vset) level begin_key end_key) \<and>
         total_bytes (butlast (CompactRange_inputs vset level begin_key end_key))
           < MaxFileSizeForLevel level \<and>
         (length (CompactRange_inputs vset level begin_key end_key)
            < length (GetOverlappingInputs (current' vset) level begin_key end_key) \<longrightarrow>
          MaxFileSizeForLevel level
            \<le> total_bytes (CompactRange_inputs vset level begin_key end_key)) \<and>
         CompactRange vset level begin_key end_key =
           (case SetupOtherInputs vset
                   ((new_Compaction level)
                      \<lparr>input_version' := Some (current' vset),
                       inputs_0 := CompactRange_inputs vset level begin_key end_key\<rparr>) of
              Inl e \<Rightarrow> Inl e
            | Inr cv \<Rightarrow> Inr (Some (fst cv), snd cv))"
proof -
  have "0 < MaxFileSizeForLevel level"
    by (simp add: MaxFileSizeForLevel_def kTargetFileSize_def)
  moreover have "0 + total_bytes (GetOverlappingInputs (current' vset) level begin_key end_key)
      < 2 ^ 64"
    using assms(3) by simp
  ultimately show ?thesis
    using CompactRange_resize_prefix[of 0 "MaxFileSizeForLevel level"
        "GetOverlappingInputs (current' vset) level begin_key end_key"] assms(2)
    by (simp add: CompactRange_inputs_def CompactRange_def)
qed

lemma compact_range_sample_level1:
  "GetOverlappingInputs (current' compact_range_sample) 1 None None =
     [file_of 1 1572864 10 15, file_of 2 1572864 20 25, file_of 3 1572864 30 35]"
  by (simp add: GetOverlappingInputs_def compact_range_sample_def vset_of_def version_of_def
      new_Version_def GetOverlappingInputs_loop.simps file_before_range_def
      file_after_range_def)

lemma compact_range_sample_level0:
  "GetOverlappingInputs (current' compact_range_sample) 0 None None =
     [file_of 4 3145728 1 5, file_of 5 3145728 3 8]"
  by (simp add: GetOverlappingInputs_def compact_range_sample_def vset_of_def version_of_def
      new_Version_def GetOverlappingInputs_loop.simps file_before_range_def
      file_after_range_def file_widens_begin_def file_widens_end_def)

lemma compact_range_sample_inputs1:
  "CompactRange_inputs compact_range_sample 1 None None =
     [file_of 1 1572864 10 15, file_of 2 1572864 20 25]"
  unfolding CompactRange_inputs_def compact_range_sample_level1
  by (simp add: MaxFileSizeForLevel_def kTargetFileSize_def file_of_def)

lemma compact_range_sample_inputs0:
  "CompactRange_inputs compact_range_sample 0 None None = [file_of 4 3145728 1 5]"
  unfolding CompactRange_inputs_def compact_range_sample_level0
  by (simp add: MaxFileSizeForLevel_def kTargetFileSize_def file_of_def)

theorem CompactRange_size_cut_witness:
  "CompactRange_inputs compact_range_sample 1 None None =
     [file_of 1 1572864 10 15, file_of 2 1572864 20 25] \<and>
   total_bytes (GetOverlappingInputs (current' compact_range_sample) 1 None None) < 2 ^ 64 \<and>
   total_bytes (butlast (CompactRange_inputs compact_range_sample 1 None None))
     < MaxFileSizeForLevel 1 \<and>
   MaxFileSizeForLevel 1 \<le> total_bytes (CompactRange_inputs compact_range_sample 1 None None)"
proof -
  have h: "GetOverlappingInputs (current' compact_range_sample) 1 None None \<noteq> []"
    unfolding compact_range_sample_level1 by simp
  have b: "total_bytes (GetOverlappingInputs (current' compact_range_sample) 1 None None)
      < 2 ^ 64"
    unfolding compact_range_sample_level1 by (simp add: total_bytes_def file_of_def)
  have l: "length (CompactRange_inputs compact_range_sample 1 None None)
      < length (GetOverlappingInputs (current' compact_range_sample) 1 None None)"
    unfolding compact_range_sample_level1 compact_range_sample_inputs1 by simp
  have "(1::nat) \<le> 1" by simp
  from CompactRange_size_cut [OF this h b] l b compact_range_sample_inputs1
  show ?thesis by blast
qed

lemma compact_range_sample_above:
  "2 \<le> level \<Longrightarrow> GetOverlappingInputs (current' compact_range_sample) level b e = []"
  by (simp add: GetOverlappingInputs_def compact_range_sample_def vset_of_def version_of_def
      new_Version_def GetOverlappingInputs_loop.simps)

lemma compact_range_sample_level1_range:
  "GetOverlappingInputs (current' compact_range_sample) (Suc 0)
     (Some (InternalKey (Suc 0) 100 kTypeValue)) (Some (InternalKey 5 (Suc 0) kTypeValue)) = []"
  by (simp add: GetOverlappingInputs_def compact_range_sample_def vset_of_def version_of_def
      new_Version_def GetOverlappingInputs_loop.simps file_before_range_def
      file_after_range_def file_of_def ucmp_Compare_def)

text \<open>
  Claim C2 as stated fails. With three level-1 files of 1.5 MiB each, the compaction that
  \<open>CompactRange\<close> returns for level 1 holds two of them, 3 MiB against the cap of
  2 MiB. With two overlapping level-0 files of 3 MiB each, the compaction returned for
  level 0 holds only the first: the cut applies at level 0 as well.
\<close>

theorem CompactRange_size_cap_counterexample:
  "(case CompactRange compact_range_sample 1 None None of
      Inr (Some c, vs) \<Rightarrow>
        inputs_0 c = [file_of 1 1572864 10 15, file_of 2 1572864 20 25] \<and>
        MaxFileSizeForLevel 1 < total_bytes (inputs_0 c)
    | _ \<Rightarrow> False) \<and>
   (case CompactRange compact_range_sample 0 None None of
      Inr (Some c, vs) \<Rightarrow>
        GetOverlappingInputs (current' compact_range_sample) 0 None None =
          [file_of 4 3145728 1 5, file_of 5 3145728 3 8] \<and>
        inputs_0 c = [file_of 4 3145728 1 5]
    | _ \<Rightarrow> False)"
proof -
  have a: "case CompactRange compact_range_sample 1 None None of
      Inr (Some c, vs) \<Rightarrow>
        inputs_0 c = [file_of 1 1572864 10 15, file_of 2 1572864 20 25] \<and>
        MaxFileSizeForLevel 1 < total_bytes (inputs_0 c)
    | _ \<Rightarrow> False"
    unfolding CompactRange_def compact_range_sample_inputs1 compact_range_sample_level1
    by (simp add: SetupOtherInputs_def SetupOtherInputs_expand_def GetRange_def GetRange2_def
        new_Compaction_def compact_range_sample_above Let_def total_bytes_def
        MaxFileSizeForLevel_def kTargetFileSize_def file_of_def)
  have b: "case CompactRange compact_range_sample 0 None None of
      Inr (Some c, vs) \<Rightarrow>
        GetOverlappingInputs (current' compact_range_sample) 0 None None =
          [file_of 4 3145728 1 5, file_of 5 3145728 3 8] \<and>
        inputs_0 c = [file_of 4 3145728 1 5]
    | _ \<Rightarrow> False"
    unfolding CompactRange_def compact_range_sample_inputs0 compact_range_sample_level0
    by (simp add: SetupOtherInputs_def SetupOtherInputs_expand_def GetRange_def GetRange2_def
        new_Compaction_def compact_range_sample_above compact_range_sample_level1_range
        Let_def file_of_def)
  show ?thesis using a b by blast
qed

section \<open>The input expansion of SetupOtherInputs\<close>

lemma to_int64_small: "n < 2 ^ 63 \<Longrightarrow> to_int64 n = int n"
  by (simp add: to_int64_def Let_def)

lemma to_uint64_nonneg: "0 \<le> x \<Longrightarrow> x < 2 ^ 64 \<Longrightarrow> to_uint64 x = nat x"
  by (simp add: to_uint64_def)

lemma TotalFileSize_fold_exact:
  "nat s + total_bytes fs < 2 ^ 63 \<Longrightarrow> 0 \<le> s \<Longrightarrow>
   fold (\<lambda>f sum_bytes. to_int64 (to_uint64 sum_bytes + file_size f)) fs s
     = s + int (total_bytes fs)"
proof (induction fs arbitrary: s)
  case Nil
  then show ?case by (simp add: total_bytes_def)
next
  case (Cons f fs)
  have s64: "s < 2 ^ 64" using Cons.prems by simp
  have u: "to_uint64 s = nat s"
    using to_uint64_nonneg[OF Cons.prems(2) s64] .
  have "nat s + file_size f < 2 ^ 63"
    using Cons.prems(1) by (simp add: total_bytes_def)
  then have step: "to_int64 (to_uint64 s + file_size f) = s + int (file_size f)"
    using Cons.prems(2) by (simp add: u to_int64_small)
  have "nat (s + int (file_size f)) + total_bytes fs < 2 ^ 63"
    using Cons.prems by (simp add: total_bytes_def nat_add_distrib)
  moreover have "0 \<le> s + int (file_size f)" using Cons.prems(2) by simp
  ultimately show ?case
    using Cons.IH[of "s + int (file_size f)"] by (simp add: step total_bytes_def)
qed

lemma TotalFileSize_exact:
  "total_bytes fs < 2 ^ 63 \<Longrightarrow> TotalFileSize fs = int (total_bytes fs)"
  using TotalFileSize_fold_exact[of 0 fs] by (simp add: TotalFileSize_def)

lemma int64_add_exact:
  "0 \<le> a \<Longrightarrow> 0 \<le> b \<Longrightarrow> a + b < 2 ^ 63 \<Longrightarrow> int64_add a b = a + b"
  by (simp add: int64_add_def to_uint64_nonneg to_int64_small)

lemma GetRange_nonempty: "fs \<noteq> [] \<Longrightarrow> \<exists>r. GetRange fs = Inr r"
  by (cases fs) (simp_all add: GetRange_def)

text \<open>
  Claim C5, amended. For a compaction with a non-empty \<open>inputs[0]\<close>, the sizes of
  \<open>expanded0\<close> and \<open>inputs[1]\<close> adding up to less than \<open>2^63\<close> bytes,
  \<open>SetupOtherInputs\<close> succeeds, and the expansion is adopted
  (\<open>inputs[0] := expanded0\<close>, \<open>inputs[1] := expanded1\<close>) exactly when \<open>inputs[1]\<close> is not
  empty and \<open>|expanded0| > |inputs[0]|\<close>,
  \<open>bytes(expanded0) + bytes(inputs[1]) < kExpandedCompactionByteSizeLimit\<close> and
  \<open>|expanded1| = |inputs[1]|\<close>; otherwise \<open>inputs[0]\<close> is left as it was and
  \<open>inputs[1]\<close> is the list of the files of \<open>level+1\<close> that overlap it.
\<close>

theorem SetupOtherInputs_expansion:
  assumes "inputs_0 c \<noteq> []"
    and "total_bytes (SetupOtherInputs_expanded0 vset c) +
         total_bytes (SetupOtherInputs_inputs1 vset c) < 2 ^ 63"
  shows "\<exists>c1 vset1. SetupOtherInputs vset c = Inr (c1, vset1) \<and>
     (if SetupOtherInputs_inputs1 vset c \<noteq> [] \<and> expansion_conditions vset c
      then inputs_0 c1 = SetupOtherInputs_expanded0 vset c \<and>
           inputs_1 c1 = SetupOtherInputs_expanded1 vset c
      else inputs_0 c1 = inputs_0 c \<and> inputs_1 c1 = SetupOtherInputs_inputs1 vset c)"
proof -
  obtain sl where sl: "GetRange (inputs_0 c) = Inr sl"
    using GetRange_nonempty[OF assms(1)] by blast
  define inputs1 where "inputs1 = GetOverlappingInputs (current' vset) (level' c + 1)
                   (Some (fst sl)) (Some (snd sl))"
  have i1: "SetupOtherInputs_inputs1 vset c = inputs1"
    by (simp add: SetupOtherInputs_inputs1_def sl inputs1_def)
  obtain al where al: "GetRange2 (inputs_0 c) inputs1 = Inr al"
    using GetRange_nonempty[of "inputs_0 c @ inputs1"] assms(1) by (auto simp: GetRange2_def)
  define expanded0 where "expanded0 = GetOverlappingInputs (current' vset) (level' c)
                          (Some (fst al)) (Some (snd al))"
  have e0: "SetupOtherInputs_expanded0 vset c = expanded0"
    by (simp add: SetupOtherInputs_expanded0_def i1 al expanded0_def)
  have bound: "total_bytes expanded0 + total_bytes inputs1 < 2 ^ 63"
    using assms(2) unfolding e0 i1 .
  have t1: "TotalFileSize inputs1 = int (total_bytes inputs1)"
    using bound by (intro TotalFileSize_exact) simp
  have t0: "TotalFileSize expanded0 = int (total_bytes expanded0)"
    using bound by (intro TotalFileSize_exact) simp
  have "int (total_bytes inputs1) + int (total_bytes expanded0) < 2 ^ 63"
    using bound by (simp add: add.commute flip: of_nat_add)
  then have bytes: "int64_add (TotalFileSize inputs1) (TotalFileSize expanded0) =
      int (total_bytes expanded0) + int (total_bytes inputs1)"
    unfolding t0 t1 by (subst int64_add_exact) simp_all
  have so: "SetupOtherInputs vset c =
      (case SetupOtherInputs_expand (current' vset) (level' c) (inputs_0 c) inputs1 sl al of
         Inl e \<Rightarrow> Inl e
       | Inr (inputs0a, inputs1a, sla, alla) \<Rightarrow>
           Inr (c\<lparr>inputs_0 := inputs0a, inputs_1 := inputs1a,
                  grandparents' :=
                    (if level' c + 2 < kNumLevels
                     then GetOverlappingInputs (current' vset) (level' c + 2)
                            (Some (fst alla)) (Some (snd alla))
                     else grandparents' c),
                  edit' := SetCompactPointer (level' c) (snd sla) (edit' c)\<rparr>,
                vset\<lparr>compact_pointer' :=
                       (compact_pointer' vset)(level' c := Some (snd sla))\<rparr>))"
    unfolding SetupOtherInputs_def Let_def sl sum.case inputs1_def[symmetric] al ..
  show ?thesis
  proof (cases "inputs1 \<noteq> [] \<and> expansion_conditions vset c")
    case False
    have "SetupOtherInputs_expand (current' vset) (level' c) (inputs_0 c) inputs1 sl al
        = Inr (inputs_0 c, inputs1, sl, al)"
    proof (cases "inputs1 \<noteq> [] \<and> length expanded0 > length (inputs_0 c) \<and>
        int (total_bytes expanded0) + int (total_bytes inputs1)
          < kExpandedCompactionByteSizeLimit")
      case False
      then show ?thesis
        by (auto simp: SetupOtherInputs_expand_def Let_def expanded0_def[symmetric] bytes)
    next
      case True
      then have "expanded0 \<noteq> []" by auto
      then obtain nr where nr: "GetRange expanded0 = Inr nr"
        using GetRange_nonempty by blast
      have "SetupOtherInputs_expanded1 vset c = GetOverlappingInputs (current' vset)
          (level' c + 1) (Some (fst nr)) (Some (snd nr))"
        by (simp add: SetupOtherInputs_expanded1_def e0 nr)
      then have "length (GetOverlappingInputs (current' vset)
          (level' c + 1) (Some (fst nr)) (Some (snd nr))) \<noteq> length inputs1"
        using \<open>\<not> (inputs1 \<noteq> [] \<and> expansion_conditions vset c)\<close> True
        by (simp add: expansion_conditions_def e0 i1)
      then show ?thesis using True nr
        by (simp add: SetupOtherInputs_expand_def Let_def expanded0_def[symmetric] bytes)
    qed
    then show ?thesis using False unfolding so i1 by auto
  next
    case True
    then have c1: "length expanded0 > length (inputs_0 c)"
        "int (total_bytes expanded0) + int (total_bytes inputs1)
           < kExpandedCompactionByteSizeLimit"
      by (simp_all add: expansion_conditions_def e0 i1)
    then have "expanded0 \<noteq> []" by auto
    then obtain nr where nr: "GetRange expanded0 = Inr nr"
      using GetRange_nonempty by blast
    define expanded1 where "expanded1 = GetOverlappingInputs (current' vset) (level' c + 1)
                          (Some (fst nr)) (Some (snd nr))"
    have e1: "SetupOtherInputs_expanded1 vset c = expanded1"
      by (simp add: SetupOtherInputs_expanded1_def e0 nr expanded1_def)
    have c3: "length expanded1 = length inputs1"
      using True by (simp add: expansion_conditions_def e1 i1)
    obtain al2 where al2: "GetRange2 expanded0 expanded1 = Inr al2"
      using GetRange_nonempty[of "expanded0 @ expanded1"] \<open>expanded0 \<noteq> []\<close>
      by (auto simp: GetRange2_def)
    have "SetupOtherInputs_expand (current' vset) (level' c) (inputs_0 c) inputs1 sl al
        = Inr (expanded0, expanded1, nr, al2)"
      unfolding SetupOtherInputs_expand_def Let_def expanded0_def[symmetric] nr sum.case
        expanded1_def[symmetric] al2 bytes
      using True c1 c3 by simp
    then show ?thesis using True unfolding so i1 e0 e1 by auto
  qed
qed

lemmas overlap_eval =
  GetOverlappingInputs_def GetOverlappingInputs_loop.simps file_before_range_def
  file_after_range_def file_widens_begin_def file_widens_end_def ucmp_Compare_def
  icmp_Compare_def PackSequenceAndType_def GetRange_def GetRange2_def
  vset_of_def version_of_def new_Version_def new_Compaction_def file_of_def

lemma boundary_inputs1: "SetupOtherInputs_inputs1 boundary_sample boundary_compaction = []"
  by (simp add: SetupOtherInputs_inputs1_def boundary_sample_def boundary_compaction_def
      boundary_file_a_def boundary_file_b_def overlap_eval)

lemma boundary_expanded0:
  "SetupOtherInputs_expanded0 boundary_sample boundary_compaction =
     [boundary_file_a, boundary_file_b]"
  unfolding SetupOtherInputs_expanded0_def boundary_inputs1
  by (simp add: boundary_sample_def boundary_compaction_def
      boundary_file_a_def boundary_file_b_def overlap_eval)

lemma boundary_expanded1: "SetupOtherInputs_expanded1 boundary_sample boundary_compaction = []"
  unfolding SetupOtherInputs_expanded1_def boundary_expanded0
  by (simp add: boundary_sample_def boundary_compaction_def
      boundary_file_a_def boundary_file_b_def overlap_eval)

lemma boundary_conditions: "expansion_conditions boundary_sample boundary_compaction"
  unfolding expansion_conditions_def boundary_expanded0 boundary_expanded1 boundary_inputs1
  by (simp add: boundary_compaction_def new_Compaction_def total_bytes_def
      boundary_file_a_def boundary_file_b_def kExpandedCompactionByteSizeLimit_def
      kTargetFileSize_def)

text \<open>
  Claim C5 as stated fails. Two level-1 files meet at user key 3 and level 2 is empty; the
  compaction holds the first file. The three conditions of the claim hold (\<open>expanded0\<close>
  has both files, \<open>expanded1\<close> and \<open>inputs[1]\<close> are empty), yet \<open>inputs[0]\<close> stays the
  single file: the code tries the expansion only when \<open>inputs[1]\<close> is not empty.
\<close>

theorem SetupOtherInputs_adoption_counterexample:
  "length (SetupOtherInputs_expanded0 boundary_sample boundary_compaction)
     > length (inputs_0 boundary_compaction) \<and>
   int (total_bytes (SetupOtherInputs_expanded0 boundary_sample boundary_compaction)) +
     int (total_bytes (SetupOtherInputs_inputs1 boundary_sample boundary_compaction))
     < kExpandedCompactionByteSizeLimit \<and>
   length (SetupOtherInputs_expanded1 boundary_sample boundary_compaction)
     = length (SetupOtherInputs_inputs1 boundary_sample boundary_compaction) \<and>
   SetupOtherInputs_expanded0 boundary_sample boundary_compaction
     = [boundary_file_a, boundary_file_b] \<and>
   (case SetupOtherInputs boundary_sample boundary_compaction of
      Inl e \<Rightarrow> False
    | Inr cv \<Rightarrow> inputs_0 (fst cv) = [boundary_file_a] \<and> inputs_1 (fst cv) = [])"
proof -
  have "case SetupOtherInputs boundary_sample boundary_compaction of
      Inl e \<Rightarrow> False
    | Inr cv \<Rightarrow> inputs_0 (fst cv) = [boundary_file_a] \<and> inputs_1 (fst cv) = []"
    by (simp add: SetupOtherInputs_def SetupOtherInputs_expand_def Let_def
        boundary_sample_def boundary_compaction_def boundary_file_a_def boundary_file_b_def
        overlap_eval)
  then show ?thesis
    using boundary_conditions boundary_expanded0 unfolding expansion_conditions_def by blast
qed

lemma expansion_inputs1:
  "SetupOtherInputs_inputs1 expansion_sample expansion_compaction =
     [file_of 3 10 1 3, file_of 4 10 4 5]"
  by (simp add: SetupOtherInputs_inputs1_def expansion_sample_def expansion_compaction_def
      overlap_eval)

lemma expansion_expanded0:
  "SetupOtherInputs_expanded0 expansion_sample expansion_compaction =
     [file_of 1 10 2 4, file_of 2 10 5 6]"
  unfolding SetupOtherInputs_expanded0_def expansion_inputs1
  by (simp add: expansion_sample_def expansion_compaction_def overlap_eval)

lemma expansion_expanded1:
  "SetupOtherInputs_expanded1 expansion_sample expansion_compaction =
     [file_of 3 10 1 3, file_of 4 10 4 5]"
  unfolding SetupOtherInputs_expanded1_def expansion_expanded0
  by (simp add: expansion_sample_def expansion_compaction_def overlap_eval)

theorem SetupOtherInputs_expansion_witness:
  "SetupOtherInputs_inputs1 expansion_sample expansion_compaction \<noteq> [] \<and>
   total_bytes (SetupOtherInputs_expanded0 expansion_sample expansion_compaction) +
     total_bytes (SetupOtherInputs_inputs1 expansion_sample expansion_compaction) < 2 ^ 63 \<and>
   expansion_conditions expansion_sample expansion_compaction \<and>
   (case SetupOtherInputs expansion_sample expansion_compaction of
      Inl e \<Rightarrow> False
    | Inr cv \<Rightarrow> inputs_0 (fst cv) = [file_of 1 10 2 4, file_of 2 10 5 6] \<and>
               inputs_1 (fst cv) = [file_of 3 10 1 3, file_of 4 10 4 5])"
proof -
  have h: "inputs_0 expansion_compaction \<noteq> []"
    by (simp add: expansion_compaction_def)
  have i: "SetupOtherInputs_inputs1 expansion_sample expansion_compaction \<noteq> []"
    unfolding expansion_inputs1 by simp
  have b: "total_bytes (SetupOtherInputs_expanded0 expansion_sample expansion_compaction) +
     total_bytes (SetupOtherInputs_inputs1 expansion_sample expansion_compaction) < 2 ^ 63"
    unfolding expansion_expanded0 expansion_inputs1
    by (simp add: total_bytes_def file_of_def)
  have c: "expansion_conditions expansion_sample expansion_compaction"
    unfolding expansion_conditions_def expansion_expanded0 expansion_expanded1
      expansion_inputs1
    by (simp add: expansion_compaction_def new_Compaction_def total_bytes_def file_of_def
        kExpandedCompactionByteSizeLimit_def kTargetFileSize_def)
  obtain c1 vset1 where r:
      "SetupOtherInputs expansion_sample expansion_compaction = Inr (c1, vset1)"
      "inputs_0 c1 = SetupOtherInputs_expanded0 expansion_sample expansion_compaction"
      "inputs_1 c1 = SetupOtherInputs_expanded1 expansion_sample expansion_compaction"
    using SetupOtherInputs_expansion [OF h b] i c by auto
  show ?thesis
    using i b c r unfolding expansion_expanded0 expansion_expanded1 by simp
qed

end
